theory Spec2Isabelle
  imports Complex_Main
begin

section \<open>Grid and conventions\<close>

text \<open>
  The simulation works on a structured grid of \<open>Nx \<times> Ny \<times> Nz\<close> cells. The source fixes
  the three extents as compile-time constants; here they are fields of a record so that
  the functions can be evaluated on small grids. Every grid field of the source
  (\<open>double *u\<close>, \<open>int *missed\<close>, ...) is a flat array indexed by \<open>pt(i,j,k)\<close>; it is
  modelled as a function from the flat index. Values of type \<open>double\<close> are modelled as
  real numbers, values of type \<open>int\<close> as unbounded integers (grid indices stay far below
  the 32-bit range).
\<close>

record grid =
  Nx :: int
  Ny :: int
  Nz :: int

definition pt :: "grid \<Rightarrow> int \<Rightarrow> int \<Rightarrow> int \<Rightarrow> int" where
  "pt g i j k = i * Ny g * Nz g + j * Nz g + k"

definition gsize :: "grid \<Rightarrow> int" where
  "gsize g = Nx g * Ny g * Nz g"

text \<open>The triple loop \<open>for i < Nx, for j < Ny, for k < Nz\<close>, as the list of visited cells.\<close>

definition cells :: "grid \<Rightarrow> (int \<times> int \<times> int) list" where
  "cells g = concat (map (\<lambda>i. concat (map (\<lambda>j. map (\<lambda>k. (i, j, k)) [0..Nz g - 1])
                [0..Ny g - 1])) [0..Nx g - 1])"

definition in_grid :: "grid \<Rightarrow> int \<times> int \<times> int \<Rightarrow> bool" where
  "in_grid g c = (case c of (i, j, k) \<Rightarrow>
     0 \<le> i \<and> i < Nx g \<and> 0 \<le> j \<and> j < Ny g \<and> 0 \<le> k \<and> k < Nz g)"

datatype init_option =
  FROM_PHI_FILE | FROM_SURFACE_FILE | FROM_UV_FILE | FROM_KNOT_FILE | FROM_FUNCTION

section \<open>Phase wrapping\<close>

text \<open>
  The two loops that follow every phase computation:
  \<^verbatim>\<open>while(phi[n]>M_PI) phi[n] -= 2*M_PI;\<close> and
  \<^verbatim>\<open>while(phi[n]<-M_PI) phi[n] += 2*M_PI;\<close>.
\<close>

function wrap_above :: "real \<Rightarrow> real" where
  "wrap_above p = (if p > pi then wrap_above (p - 2 * pi) else p)"
  by pat_completeness auto
termination
proof (relation "measure (\<lambda>p. nat \<lceil>(p - pi) / (2 * pi)\<rceil>)")
  show "wf (measure (\<lambda>p. nat \<lceil>(p - pi) / (2 * pi)\<rceil>))" by simp
next
  fix p :: real
  assume gt: "pi < p"
  have eq: "(p - 2 * pi - pi) / (2 * pi) = (p - pi) / (2 * pi) - 1"
    by (simp add: field_simps)
  have pos: "0 < (p - pi) / (2 * pi)" using gt by simp
  have "\<lceil>(p - 2 * pi - pi) / (2 * pi)\<rceil> = \<lceil>(p - pi) / (2 * pi)\<rceil> - 1"
    by (simp only: eq ceiling_diff_one)
  moreover have "1 \<le> \<lceil>(p - pi) / (2 * pi)\<rceil>" using pos by linarith
  ultimately have "nat \<lceil>(p - 2 * pi - pi) / (2 * pi)\<rceil> < nat \<lceil>(p - pi) / (2 * pi)\<rceil>"
    by linarith
  then show "(p - 2 * pi, p) \<in> measure (\<lambda>p. nat \<lceil>(p - pi) / (2 * pi)\<rceil>)"
    by (simp only: in_measure)
qed

function wrap_below :: "real \<Rightarrow> real" where
  "wrap_below p = (if p < - pi then wrap_below (p + 2 * pi) else p)"
  by pat_completeness auto
termination
proof (relation "measure (\<lambda>p. nat \<lceil>(- pi - p) / (2 * pi)\<rceil>)")
  show "wf (measure (\<lambda>p. nat \<lceil>(- pi - p) / (2 * pi)\<rceil>))" by simp
next
  fix p :: real
  assume lt: "p < - pi"
  have eq: "(- pi - (p + 2 * pi)) / (2 * pi) = (- pi - p) / (2 * pi) - 1"
    by (simp add: field_simps)
  have pos: "0 < (- pi - p) / (2 * pi)" using lt by simp
  have "\<lceil>(- pi - (p + 2 * pi)) / (2 * pi)\<rceil> = \<lceil>(- pi - p) / (2 * pi)\<rceil> - 1"
    by (simp only: eq ceiling_diff_one)
  moreover have "1 \<le> \<lceil>(- pi - p) / (2 * pi)\<rceil>" using pos by linarith
  ultimately have
    "nat \<lceil>(- pi - (p + 2 * pi)) / (2 * pi)\<rceil> < nat \<lceil>(- pi - p) / (2 * pi)\<rceil>"
    by linarith
  then show "(p + 2 * pi, p) \<in> measure (\<lambda>p. nat \<lceil>(- pi - p) / (2 * pi)\<rceil>)"
    by (simp only: in_measure)
qed

declare wrap_above.simps [simp del] wrap_below.simps [simp del]

definition phase_wrap :: "real \<Rightarrow> real" where
  "phase_wrap p = wrap_below (wrap_above p)"

section \<open>Initial state of the two fields\<close>

text \<open>
  \<open>uv_initialise\<close>: one loop over the flat index. The \<open>missed\<close> array only exists for
  knot-file input; the source reads it only behind \<open>option == FROM_KNOT_FILE\<close>.
\<close>

definition uv_initialise_cell ::
  "init_option \<Rightarrow> (int \<Rightarrow> real) \<Rightarrow> (int \<Rightarrow> int) \<Rightarrow> int \<Rightarrow>
   (int \<Rightarrow> real) \<times> (int \<Rightarrow> real) \<Rightarrow> (int \<Rightarrow> real) \<times> (int \<Rightarrow> real)" where
  "uv_initialise_cell opt phi missed n uv =
     (case uv of (u, v) \<Rightarrow>
        let u1 = u(n := 2 * cos (phi n) - 0.4);
            v1 = v(n := sin (phi n) - 0.4)
        in if opt = FROM_KNOT_FILE \<and> missed n = 1
           then (u1(n := - 0.4), v1(n := - 0.4))
           else (u1, v1))"

definition uv_initialise ::
  "grid \<Rightarrow> init_option \<Rightarrow> (int \<Rightarrow> real) \<Rightarrow> (int \<Rightarrow> int) \<Rightarrow>
   (int \<Rightarrow> real) \<times> (int \<Rightarrow> real) \<Rightarrow> (int \<Rightarrow> real) \<times> (int \<Rightarrow> real)" where
  "uv_initialise g opt phi missed uv =
     fold (uv_initialise_cell opt phi missed) [0..gsize g - 1] uv"

section \<open>Geometry normalisation: \<open>scalefunction\<close>\<close>

text \<open>
  The arrays \<open>scale[3]\<close>, \<open>nonzeroheight[3]\<close> and \<open>midpoint[3]\<close> are lists of length three.
  The target extents \<open>xmax\<close>, \<open>ymax\<close>, \<open>zmax\<close> are globals of the source and the macro
  \<open>PRESERVE_RATIOS\<close> selects the second half of the function; both are arguments here.
\<close>

definition min_scale_step :: "real list \<Rightarrow> bool list \<Rightarrow> nat \<Rightarrow> real \<times> nat \<Rightarrow> real \<times> nat" where
  "min_scale_step scale nonzeroheight i acc =
     (case acc of (minscale, imin) \<Rightarrow>
        if scale ! i < minscale \<and> nonzeroheight ! i then (scale ! i, i) else (minscale, imin))"

definition scalefunction ::
  "bool \<Rightarrow> real \<Rightarrow> real \<Rightarrow> real \<Rightarrow> real \<Rightarrow> real \<Rightarrow> real \<Rightarrow> real \<Rightarrow> real \<Rightarrow> real \<Rightarrow>
   real list \<times> real list" where
  "scalefunction preserve_ratios xmax ymax zmax maxxin minxin maxyin minyin maxzin minzin =
     (let s0 = (if maxxin - minxin > 0 then xmax / (maxxin - minxin) else 1);
          s1 = (if maxyin - minyin > 0 then ymax / (maxyin - minyin) else 1);
          s2 = (if maxzin - minzin > 0 then zmax / (maxzin - minzin) else 1);
          scale = [s0, s1, s2];
          nonzeroheight = [maxxin - minxin > 0, maxyin - minyin > 0, maxzin - minzin > 0];
          midpoint = [0.5 * (maxxin + minxin), 0.5 * (maxyin + minyin), 0.5 * (maxzin + minzin)]
      in if preserve_ratios
         then (case fold (min_scale_step scale nonzeroheight) [0, 1, 2] (1000000000, 3) of
                 (minscale, imin) \<Rightarrow>
                   if imin < 3
                   then (fold (\<lambda>i sc. sc[i := sc ! imin]) [0, 1, 2] scale, midpoint)
                   else (scale, midpoint))
         else (scale, midpoint))"

text \<open>
  The per-axis factors of the axes whose input extent is positive (target extent divided
  by input extent), the quantity the specification takes the minimum of.
\<close>

definition axis_factors ::
  "real \<Rightarrow> real \<Rightarrow> real \<Rightarrow> real \<Rightarrow> real \<Rightarrow> real \<Rightarrow> real \<Rightarrow> real \<Rightarrow> real \<Rightarrow> real list" where
  "axis_factors xmax ymax zmax maxxin minxin maxyin minyin maxzin minzin =
     (if maxxin - minxin > 0 then [xmax / (maxxin - minxin)] else []) @
     (if maxyin - minyin > 0 then [ymax / (maxyin - minyin)] else []) @
     (if maxzin - minzin > 0 then [zmax / (maxzin - minzin)] else [])"

section \<open>Seed search of the filament extractor\<close>

text \<open>
  The scan at the head of the \<open>while(knotcomponentsexist)\<close> loop of
  \<open>find_knot_properties\<close>. The locals \<open>imax\<close>, \<open>jmax\<close>, \<open>kmax\<close> are not initialised by the
  source: they are \<open>None\<close> until the first assignment.
\<close>

definition ucv_magnitude :: "(int \<Rightarrow> real) \<Rightarrow> (int \<Rightarrow> real) \<Rightarrow> (int \<Rightarrow> real) \<Rightarrow> int \<Rightarrow> real" where
  "ucv_magnitude ucvx ucvy ucvz n = sqrt (ucvx n * ucvx n + ucvy n * ucvy n + ucvz n * ucvz n)"

definition scan_cell ::
  "grid \<Rightarrow> (int \<Rightarrow> real) \<Rightarrow> (int \<Rightarrow> real) \<Rightarrow> (int \<Rightarrow> real) \<Rightarrow>
   (int \<Rightarrow> bool) \<Rightarrow> (int \<Rightarrow> bool) \<Rightarrow> (int \<Rightarrow> bool) \<Rightarrow>
   int \<times> int \<times> int \<Rightarrow> real \<times> (int \<times> int \<times> int) option \<Rightarrow> real \<times> (int \<times> int \<times> int) option" where
  "scan_cell g ucvx ucvy ucvz xmarked ymarked zmarked c acc =
     (case c of (i, j, k) \<Rightarrow>
        let n = pt g i j k;
            ucvmag = ucv_magnitude ucvx ucvy ucvz n
        in if (\<not> xmarked i \<or> \<not> ymarked j \<or> \<not> zmarked k) \<and> ucvmag > fst acc
           then (ucvmag, Some (i, j, k))
           else acc)"

definition find_seed ::
  "grid \<Rightarrow> (int \<Rightarrow> real) \<Rightarrow> (int \<Rightarrow> real) \<Rightarrow> (int \<Rightarrow> real) \<Rightarrow>
   (int \<Rightarrow> bool) \<Rightarrow> (int \<Rightarrow> bool) \<Rightarrow> (int \<Rightarrow> bool) \<Rightarrow> real \<times> (int \<times> int \<times> int) option" where
  "find_seed g ucvx ucvy ucvz xmarked ymarked zmarked =
     fold (scan_cell g ucvx ucvy ucvz xmarked ymarked zmarked) (cells g) (- 1, None)"

text \<open>\<^verbatim>\<open>if(ucvmax<0.7) knotcomponentsexist = false; else knotcomponentsexist = true;\<close>\<close>

definition knotcomponentsexist ::
  "grid \<Rightarrow> (int \<Rightarrow> real) \<Rightarrow> (int \<Rightarrow> real) \<Rightarrow> (int \<Rightarrow> real) \<Rightarrow>
   (int \<Rightarrow> bool) \<Rightarrow> (int \<Rightarrow> bool) \<Rightarrow> (int \<Rightarrow> bool) \<Rightarrow> bool" where
  "knotcomponentsexist g ucvx ucvy ucvz xmarked ymarked zmarked =
     (\<not> fst (find_seed g ucvx ucvy ucvz xmarked ymarked zmarked) < 0.7)"

text \<open>The cells the scan takes part in the maximum: those it does not skip.\<close>

definition cell_unmarked ::
  "(int \<Rightarrow> bool) \<Rightarrow> (int \<Rightarrow> bool) \<Rightarrow> (int \<Rightarrow> bool) \<Rightarrow> int \<times> int \<times> int \<Rightarrow> bool" where
  "cell_unmarked xmarked ymarked zmarked c =
     (case c of (i, j, k) \<Rightarrow> \<not> xmarked i \<or> \<not> ymarked j \<or> \<not> zmarked k)"

text \<open>
  The reading of the specification: a cell is marked as soon as one of its three strata
  is marked.
\<close>

definition spec_cell_marked ::
  "(int \<Rightarrow> bool) \<Rightarrow> (int \<Rightarrow> bool) \<Rightarrow> (int \<Rightarrow> bool) \<Rightarrow> int \<times> int \<times> int \<Rightarrow> bool" where
  "spec_cell_marked xmarked ymarked zmarked c =
     (case c of (i, j, k) \<Rightarrow> xmarked i \<or> ymarked j \<or> zmarked k)"

section \<open>Component correspondence\<close>

text \<open>
  The loop that picks, for the previous component \<open>c\<close>, the current component \<open>d\<close>:
  \<^verbatim>\<open>int d = 0; double mindiff = -1;
  for(int q=0;q<knotcurves.size();q++) {
      double diff = abs(knotcurvesold[c].size() - knotcurves[d].size());
      if(diff < mindiff)
          mindiff = diff;
      d = q;
  }\<close>
  Only the point counts matter, so the curve sets are the lists of their sizes. The source
  applies \<open>abs\<close> to a difference of two \<open>size_t\<close> values; what that yields is a parameter
  \<open>absdiff\<close> of the model.
\<close>

definition match_step ::
  "(nat \<Rightarrow> nat \<Rightarrow> real) \<Rightarrow> nat \<Rightarrow> nat list \<Rightarrow> nat \<Rightarrow> nat \<times> real \<Rightarrow> nat \<times> real" where
  "match_step absdiff oldsize sizes q acc =
     (case acc of (d, mindiff) \<Rightarrow>
        let diff = absdiff oldsize (sizes ! d);
            mindiff1 = (if diff < mindiff then diff else mindiff)
        in (q, mindiff1))"

definition match_component :: "(nat \<Rightarrow> nat \<Rightarrow> real) \<Rightarrow> nat \<Rightarrow> nat list \<Rightarrow> nat" where
  "match_component absdiff oldsize sizes =
     fst (fold (match_step absdiff oldsize sizes) [0..<length sizes] (0, - 1))"

definition size_diff :: "nat \<Rightarrow> nat \<Rightarrow> real" where
  "size_diff a b = \<bar>real a - real b\<bar>"

text \<open>The indices of the current components whose point count is nearest to \<open>oldsize\<close>.\<close>

definition nearest_in_size :: "nat \<Rightarrow> nat list \<Rightarrow> nat \<Rightarrow> bool" where
  "nearest_in_size oldsize sizes d =
     (d < length sizes \<and>
      list_all (\<lambda>sz. size_diff oldsize (sizes ! d) \<le> size_diff oldsize sz) sizes)"

section \<open>Run parameters\<close>

text \<open>
  The constants of the run that the functions below read. The neighbour functions
  \<open>incw\<close> (reflecting boundary) and \<open>incp\<close> (periodic boundary) are declared in a header
  that is not part of the sources at hand; they are parameters of the model.
\<close>

record config =
  cgrid :: grid
  h :: real
  dtime :: real
  lambda :: real
  epsilon :: real
  beta :: real
  gam :: real
  periodic :: bool
  incw :: "int \<Rightarrow> int \<Rightarrow> int \<Rightarrow> int"
  incp :: "int \<Rightarrow> int \<Rightarrow> int \<Rightarrow> int"

definition oneoverhsq :: "config \<Rightarrow> real" where
  "oneoverhsq E = 1 / (h E * h E)"

definition oneoverepsilon :: "config \<Rightarrow> real" where
  "oneoverepsilon E = 1 / epsilon E"

text \<open>
  Modelled from the spec: the constant \<open>sixth\<close> used by \<open>uv_update\<close> is defined in the
  missing header; the specification normalises the stage weights 1, 2, 2, 1 by 6.
\<close>

definition sixth :: real where
  "sixth = 1 / 6"

section \<open>Curve tracing of the filament extractor\<close>

text \<open>
  The inner \<open>while (finish==false)\<close> loop of \<open>find_knot_properties\<close>. Of a curve point only
  the coordinates take part in the loop. The numerical work of one iteration is done by
  the interpolation code and by the simplex minimiser of the GSL library; the loop only
  looks at the two points they produce, so they are two parameters: \<open>trial_point\<close> gives
  the point \<open>(testx, testy, testz)\<close> from the previous curve point, \<open>refine_point\<close> the new
  curve point from the previous point and the trial point.
\<close>

record knotpoint =
  xcoord :: real
  ycoord :: real
  zcoord :: real

text \<open>The cast \<open>(int)\<close> of a \<open>double\<close> truncates toward zero.\<close>

definition c_trunc :: "real \<Rightarrow> int" where
  "c_trunc r = (if 0 \<le> r then \<lfloor>r\<rfloor> else \<lceil>r\<rceil>)"

definition grid_down :: "config \<Rightarrow> knotpoint \<Rightarrow> int \<times> int \<times> int" where
  "grid_down E p =
     (c_trunc (xcoord p / h E - 0.5 + real_of_int (Nx (cgrid E)) / 2),
      c_trunc (ycoord p / h E - 0.5 + real_of_int (Ny (cgrid E)) / 2),
      c_trunc (zcoord p / h E - 0.5 + real_of_int (Nz (cgrid E)) / 2))"

definition outside_grid :: "config \<Rightarrow> int \<times> int \<times> int \<Rightarrow> bool" where
  "outside_grid E c = (case c of (idwn, jdwn, kdwn) \<Rightarrow>
     idwn < 0 \<or> jdwn < 0 \<or> kdwn < 0 \<or>
     idwn > Nx (cgrid E) - 1 \<or> jdwn > Ny (cgrid E) - 1 \<or> kdwn > Nz (cgrid E) - 1)"

type_synonym marks = "(int \<Rightarrow> bool) \<times> (int \<Rightarrow> bool) \<times> (int \<Rightarrow> bool)"

definition mark_box :: "config \<Rightarrow> int \<times> int \<times> int \<Rightarrow> marks \<Rightarrow> marks" where
  "mark_box E c m = (case c of (idwn, jdwn, kdwn) \<Rightarrow>
     let delta = \<lceil>(lambda E / (2 * pi)) / h E\<rceil>
     in fold (\<lambda>q (xmarked, ymarked, zmarked).
                (xmarked(incw E idwn q (Nx (cgrid E)) := True),
                 ymarked(incw E jdwn q (Ny (cgrid E)) := True),
                 zmarked(incw E kdwn q (Nz (cgrid E)) := True)))
             [- delta..delta] m)"

definition start_distance :: "knotpoint list \<Rightarrow> nat \<Rightarrow> real" where
  "start_distance curve s =
     (let xdiff = xcoord (curve ! 0) - xcoord (curve ! s);
          ydiff = ycoord (curve ! 0) - ycoord (curve ! s);
          zdiff = zcoord (curve ! 0) - zcoord (curve ! s)
      in sqrt (xdiff * xdiff + ydiff * ydiff + zdiff * zdiff))"

function trace_loop ::
  "config \<Rightarrow> (knotpoint \<Rightarrow> knotpoint) \<Rightarrow> (knotpoint \<Rightarrow> knotpoint \<Rightarrow> knotpoint) \<Rightarrow>
   nat \<Rightarrow> knotpoint list \<times> marks \<Rightarrow> knotpoint list \<times> marks" where
  "trace_loop E trial_point refine_point s st =
     (let curve = fst st; prev = curve ! (s - 1) in
      if outside_grid E (grid_down E prev) then st
      else
        let m1 = mark_box E (grid_down E prev) (snd st);
            test = trial_point prev
        in if outside_grid E (grid_down E test) then (curve, m1)
           else
             let curve1 = curve @ [refine_point prev test] in
             if (start_distance curve1 s < 3 * h E \<and> s > 10) \<or> s > 50000
             then (curve1, m1)
             else trace_loop E trial_point refine_point (s + 1) (curve1, m1))"
  by pat_completeness auto
termination
  by (relation "measure (\<lambda>(E, trial_point, refine_point, s, st). 50001 - s)") auto

declare trace_loop.simps [simp del]

text \<open>The loop as the source enters it: one seed point, \<open>s = 1\<close>.\<close>

definition trace_curve ::
  "config \<Rightarrow> (knotpoint \<Rightarrow> knotpoint) \<Rightarrow> (knotpoint \<Rightarrow> knotpoint \<Rightarrow> knotpoint) \<Rightarrow>
   knotpoint \<Rightarrow> marks \<Rightarrow> knotpoint list \<times> marks" where
  "trace_curve E trial_point refine_point seed m =
     trace_loop E trial_point refine_point 1 ([seed], m)"

text \<open>The test that closes a curve at index \<open>s\<close>.\<close>

definition closes_at :: "config \<Rightarrow> knotpoint list \<Rightarrow> nat \<Rightarrow> bool" where
  "closes_at E curve s = (start_distance curve s < 3 * h E \<and> s > 10)"

text \<open>
  The loop went on from the point of index \<open>j - 1\<close> to the point of index \<open>j\<close>: neither
  \<open>break\<close> was taken, because the point of index \<open>j - 1\<close> and its trial point were inside
  the grid, and the point of index \<open>j\<close> is the one the minimiser gave.
\<close>

definition stepped ::
  "config \<Rightarrow> (knotpoint \<Rightarrow> knotpoint) \<Rightarrow> (knotpoint \<Rightarrow> knotpoint \<Rightarrow> knotpoint) \<Rightarrow>
   knotpoint list \<Rightarrow> nat \<Rightarrow> bool" where
  "stepped E tp rp curve j =
     (\<not> outside_grid E (grid_down E (curve ! (j - 1))) \<and>
      \<not> outside_grid E (grid_down E (tp (curve ! (j - 1)))) \<and>
      curve ! j = rp (curve ! (j - 1)) (tp (curve ! (j - 1))))"

text \<open>What holds of the curve that the tracing loop returns when it is entered at index \<open>s\<close>.\<close>

definition trace_post ::
  "config \<Rightarrow> (knotpoint \<Rightarrow> knotpoint) \<Rightarrow> (knotpoint \<Rightarrow> knotpoint \<Rightarrow> knotpoint) \<Rightarrow>
   nat \<Rightarrow> knotpoint list \<Rightarrow> knotpoint list \<Rightarrow> bool" where
  "trace_post E tp rp s curve0 curve1 =
     (s \<le> length curve1 \<and> length curve1 \<le> max (s + 1) 50002 \<and> take s curve1 = curve0 \<and>
      (\<forall>j. s \<le> j \<and> j < length curve1 \<longrightarrow> stepped E tp rp curve1 j) \<and>
      (\<forall>j. s \<le> j \<and> j < length curve1 - 1 \<longrightarrow> \<not> closes_at E curve1 j) \<and>
      ((s < length curve1 \<and> (closes_at E curve1 (length curve1 - 1) \<or> 50000 < length curve1 - 1)) \<or>
       outside_grid E (grid_down E (last curve1)) \<or>
       outside_grid E (grid_down E (tp (last curve1)))))"

text \<open>
  The body of \<open>if(knotcomponentsexist)\<close> for one component: the traced curve is the new
  entry \<open>knotcurves[c]\<close> (the vector is empty when \<open>c = 0\<close>, it is cleared at the end of every
  call), the code after the loop works on its \<open>NP\<close> points (vertex averaging, smoothing,
  twist and writhe; the parameter \<open>finish_curve\<close>), then \<open>c++\<close>. Between the loop and
  \<open>c++\<close> there is no test of how the loop was left.
\<close>

definition extract_component ::
  "config \<Rightarrow> (knotpoint \<Rightarrow> knotpoint) \<Rightarrow> (knotpoint \<Rightarrow> knotpoint \<Rightarrow> knotpoint) \<Rightarrow>
   (knotpoint list \<Rightarrow> knotpoint list) \<Rightarrow> knotpoint \<Rightarrow>
   nat \<times> knotpoint list list \<times> marks \<Rightarrow> nat \<times> knotpoint list list \<times> marks" where
  "extract_component E trial_point refine_point finish_curve seed st =
     (case st of (c, knotcurves, m) \<Rightarrow>
        let r = trace_curve E trial_point refine_point seed m
        in (c + 1, knotcurves @ [finish_curve (fst r)], snd r))"

section \<open>Time stepping: \<open>uv_update\<close> and \<open>uv_add\<close>\<close>

record rk_state =
  u :: "int \<Rightarrow> real"
  v :: "int \<Rightarrow> real"
  ku :: "int \<Rightarrow> real"
  kv :: "int \<Rightarrow> real"
  kut :: "int \<Rightarrow> real"
  kvt :: "int \<Rightarrow> real"
  uold :: "int \<Rightarrow> real"
  vold :: "int \<Rightarrow> real"

text \<open>First loop of \<open>uv_update\<close>: save the old fields, clear the accumulators.\<close>

definition rk_init_cell :: "config \<Rightarrow> int \<times> int \<times> int \<Rightarrow> rk_state \<Rightarrow> rk_state" where
  "rk_init_cell E c st = (case c of (i, j, k) \<Rightarrow>
     let n = pt (cgrid E) i j k
     in st\<lparr>uold := (uold st)(n := u st n), vold := (vold st)(n := v st n),
           kut := (kut st)(n := 0), kvt := (kvt st)(n := 0)\<rparr>)"

text \<open>The stage derivative of one cell: reaction terms plus the 7-point Laplacian.\<close>

definition rk_deriv_cell :: "config \<Rightarrow> int \<times> int \<times> int \<Rightarrow> rk_state \<Rightarrow> rk_state" where
  "rk_deriv_cell E c st = (case c of (i, j, k) \<Rightarrow>
     let g = cgrid E;
         n = pt g i j k;
         kup = (if periodic E then incp E k 1 (Nz g) else incw E k 1 (Nz g));
         kdwn = (if periodic E then incp E k (- 1) (Nz g) else incw E k (- 1) (Nz g));
         D2u = oneoverhsq E *
               (u st (pt g (incw E i 1 (Nx g)) j k) + u st (pt g (incw E i (- 1) (Nx g)) j k) +
                u st (pt g i (incw E j 1 (Ny g)) k) + u st (pt g i (incw E j (- 1) (Ny g)) k) +
                u st (pt g i j kup) + u st (pt g i j kdwn) - 6 * u st n)
     in st\<lparr>ku := (ku st)(n := oneoverepsilon E * (u st n - u st n * u st n * u st n / 3 - v st n)
                              + D2u),
           kv := (kv st)(n := epsilon E * (u st n + beta E - gam E * v st n))\<rparr>)"

definition uv_add_cell :: "config \<Rightarrow> real \<Rightarrow> real \<Rightarrow> int \<times> int \<times> int \<Rightarrow> rk_state \<Rightarrow> rk_state" where
  "uv_add_cell E inc coeff c st = (case c of (i, j, k) \<Rightarrow>
     let n = pt (cgrid E) i j k
     in st\<lparr>u := (u st)(n := uold st n + dtime E * inc * ku st n),
           v := (v st)(n := vold st n + dtime E * inc * kv st n),
           kut := (kut st)(n := kut st n + coeff * ku st n),
           kvt := (kvt st)(n := kvt st n + coeff * kv st n)\<rparr>)"

definition uv_add :: "config \<Rightarrow> real \<Rightarrow> real \<Rightarrow> rk_state \<Rightarrow> rk_state" where
  "uv_add E inc coeff st = fold (uv_add_cell E inc coeff) (cells (cgrid E)) st"

definition rk_final_cell :: "config \<Rightarrow> int \<times> int \<times> int \<Rightarrow> rk_state \<Rightarrow> rk_state" where
  "rk_final_cell E c st = (case c of (i, j, k) \<Rightarrow>
     let n = pt (cgrid E) i j k
     in st\<lparr>u := (u st)(n := uold st n + dtime E * sixth * (kut st n + ku st n)),
           v := (v st)(n := vold st n + dtime E * sixth * (kvt st n + kv st n))\<rparr>)"

text \<open>One pass of the loop \<open>for(l=0;l<4;l++)\<close>: the derivative loop, then the \<open>switch\<close>.\<close>

definition rk_stage :: "config \<Rightarrow> nat \<Rightarrow> rk_state \<Rightarrow> rk_state" where
  "rk_stage E l st =
     (let st1 = fold (rk_deriv_cell E) (cells (cgrid E)) st
      in if l = 0 then uv_add E 0.5 1 st1
         else if l = 1 then uv_add E 0.5 2 st1
         else if l = 2 then uv_add E 1 2 st1
         else if l = 3 then fold (rk_final_cell E) (cells (cgrid E)) st1
         else st1)"

definition uv_update :: "config \<Rightarrow> rk_state \<Rightarrow> rk_state" where
  "uv_update E st =
     fold (rk_stage E) [0, 1, 2, 3] (fold (rk_init_cell E) (cells (cgrid E)) st)"

subsection \<open>The classical four-stage scheme, as the specification words it\<close>

text \<open>
  Fields are indexed by the cell here. \<open>rhs_u\<close> and \<open>rhs_v\<close> are the reaction terms plus
  the 7-point Laplacian (six axis neighbours minus six times the centre, divided by
  \<open>h\<^sup>2\<close>); \<open>rk4_classical\<close> is old state plus \<open>dt/6\<close> times \<open>k1 + 2 k2 + 2 k3 + k4\<close>.
\<close>

type_synonym cfield = "int \<times> int \<times> int \<Rightarrow> real"

definition laplacian7 :: "config \<Rightarrow> cfield \<Rightarrow> cfield" where
  "laplacian7 E U c = (case c of (i, j, k) \<Rightarrow>
     let g = cgrid E;
         kup = (if periodic E then incp E k 1 (Nz g) else incw E k 1 (Nz g));
         kdwn = (if periodic E then incp E k (- 1) (Nz g) else incw E k (- 1) (Nz g))
     in (U (incw E i 1 (Nx g), j, k) + U (incw E i (- 1) (Nx g), j, k) +
         U (i, incw E j 1 (Ny g), k) + U (i, incw E j (- 1) (Ny g), k) +
         U (i, j, kup) + U (i, j, kdwn) - 6 * U (i, j, k)) / (h E * h E))"

definition rhs_u :: "config \<Rightarrow> cfield \<Rightarrow> cfield \<Rightarrow> cfield" where
  "rhs_u E U V c = (U c - U c ^ 3 / 3 - V c) / epsilon E + laplacian7 E U c"

definition rhs_v :: "config \<Rightarrow> cfield \<Rightarrow> cfield \<Rightarrow> cfield" where
  "rhs_v E U V c = epsilon E * (U c + beta E - gam E * V c)"

definition rk4_classical :: "config \<Rightarrow> cfield \<Rightarrow> cfield \<Rightarrow> cfield \<times> cfield" where
  "rk4_classical E U V =
     (let k1u = rhs_u E U V; k1v = rhs_v E U V;
          U1 = (\<lambda>c. U c + dtime E / 2 * k1u c); V1 = (\<lambda>c. V c + dtime E / 2 * k1v c);
          k2u = rhs_u E U1 V1; k2v = rhs_v E U1 V1;
          U2 = (\<lambda>c. U c + dtime E / 2 * k2u c); V2 = (\<lambda>c. V c + dtime E / 2 * k2v c);
          k3u = rhs_u E U2 V2; k3v = rhs_v E U2 V2;
          U3 = (\<lambda>c. U c + dtime E * k3u c); V3 = (\<lambda>c. V c + dtime E * k3v c);
          k4u = rhs_u E U3 V3; k4v = rhs_v E U3 V3
      in (\<lambda>c. U c + dtime E / 6 * (k1u c + 2 * k2u c + 2 * k3u c + k4u c),
          \<lambda>c. V c + dtime E / 6 * (k1v c + 2 * k2v c + 2 * k3v c + k4v c)))"

text \<open>A flat array read as a field over the cells.\<close>

definition on_cells :: "grid \<Rightarrow> (int \<Rightarrow> real) \<Rightarrow> cfield" where
  "on_cells g a c = (case c of (i, j, k) \<Rightarrow> a (pt g i j k))"

text \<open>What the neighbour functions have to deliver: an index of the same axis.\<close>

definition neighbours_in_range :: "config \<Rightarrow> bool" where
  "neighbours_in_range E =
     (\<forall>N \<in> {Nx (cgrid E), Ny (cgrid E), Nz (cgrid E)}. \<forall>i \<in> {0..N - 1}. \<forall>d \<in> {1, - 1}.
        0 \<le> incw E i d N \<and> incw E i d N < N \<and>
        (periodic E \<longrightarrow> 0 \<le> incp E i d N \<and> incp E i d N < N))"

text \<open>
  The flat index of a cell, and the relation between the arrays of \<open>uv_update\<close> and fields
  over the cells that the proof of the stage equations carries from stage to stage.
\<close>

definition ckey :: "grid \<Rightarrow> int \<times> int \<times> int \<Rightarrow> int" where
  "ckey g c = (case c of (i, j, k) \<Rightarrow> pt g i j k)"

definition rk_rel ::
  "grid \<Rightarrow> rk_state \<Rightarrow> cfield \<Rightarrow> cfield \<Rightarrow> cfield \<Rightarrow> cfield \<Rightarrow> cfield \<Rightarrow> cfield \<Rightarrow> bool" where
  "rk_rel g s U0 V0 Uc Vc KU KV =
     (\<forall>c. in_grid g c \<longrightarrow>
        uold s (ckey g c) = U0 c \<and> vold s (ckey g c) = V0 c \<and>
        u s (ckey g c) = Uc c \<and> v s (ckey g c) = Vc c \<and>
        kut s (ckey g c) = KU c \<and> kvt s (ckey g c) = KV c)"

section \<open>Scalar potential for surface input and for the manual function\<close>

record triangle =
  centre :: "real \<times> real \<times> real"
  normal :: "real \<times> real \<times> real"
  area :: real

text \<open>One pass of the loop over the triangles: the solid-angle term added to \<open>phi[n]\<close>.\<close>

definition phi_calc_term :: "real \<Rightarrow> real \<Rightarrow> real \<Rightarrow> triangle \<Rightarrow> real \<Rightarrow> real" where
  "phi_calc_term xi yj zk tr acc =
     (case centre tr of (c0, c1, c2) \<Rightarrow> case normal tr of (n0, n1, n2) \<Rightarrow>
        let rx = c0 - xi; ry = c1 - yj; rz = c2 - zk;
            r = sqrt (rx * rx + ry * ry + rz * rz)
        in if r > 0 then acc + (rx * n0 + ry * n1 + rz * n2) * area tr / (2 * r * r * r)
           else acc)"

definition phi_calc_cell ::
  "grid \<Rightarrow> (int \<Rightarrow> real) \<Rightarrow> (int \<Rightarrow> real) \<Rightarrow> (int \<Rightarrow> real) \<Rightarrow> triangle list \<Rightarrow>
   int \<times> int \<times> int \<Rightarrow> (int \<Rightarrow> real) \<Rightarrow> (int \<Rightarrow> real)" where
  "phi_calc_cell g x y z knotsurface c phi = (case c of (i, j, k) \<Rightarrow>
     let n = pt g i j k;
         phi1 = phi(n := 0);
         phi2 = phi1(n := fold (phi_calc_term (x i) (y j) (z k)) knotsurface (phi1 n))
     in phi2(n := phase_wrap (phi2 n)))"

definition phi_calc ::
  "grid \<Rightarrow> (int \<Rightarrow> real) \<Rightarrow> (int \<Rightarrow> real) \<Rightarrow> (int \<Rightarrow> real) \<Rightarrow> triangle list \<Rightarrow>
   (int \<Rightarrow> real) \<Rightarrow> (int \<Rightarrow> real)" where
  "phi_calc g x y z knotsurface phi = fold (phi_calc_cell g x y z knotsurface) (cells g) phi"

text \<open>\<open>phi_calc_manual\<close>; the library function \<open>atan2\<close> is a parameter.\<close>

definition phi_calc_manual_cell ::
  "grid \<Rightarrow> real \<Rightarrow> (real \<Rightarrow> real \<Rightarrow> real) \<Rightarrow> (int \<Rightarrow> real) \<Rightarrow> (int \<Rightarrow> real) \<Rightarrow> (int \<Rightarrow> real) \<Rightarrow>
   int \<times> int \<times> int \<Rightarrow> (int \<Rightarrow> real) \<Rightarrow> (int \<Rightarrow> real)" where
  "phi_calc_manual_cell g lam atan2 x y z c phi = (case c of (i, j, k) \<Rightarrow>
     let n = pt g i j k;
         theta = 0.5;
         phi1 = phi(n := atan2 (y j - lam) (x i - lam)
                         - atan2 (y j) (- sin theta * z k + cos theta * x i))
     in phi1(n := phase_wrap (phi1 n)))"

definition phi_calc_manual ::
  "grid \<Rightarrow> real \<Rightarrow> (real \<Rightarrow> real \<Rightarrow> real) \<Rightarrow> (int \<Rightarrow> real) \<Rightarrow> (int \<Rightarrow> real) \<Rightarrow> (int \<Rightarrow> real) \<Rightarrow>
   (int \<Rightarrow> real) \<Rightarrow> (int \<Rightarrow> real)" where
  "phi_calc_manual g lam atan2 x y z phi =
     fold (phi_calc_manual_cell g lam atan2 x y z) (cells g) phi"

section \<open>The path-finder\<close>

text \<open>
  \<open>pathfind\<close> walks on the grid from the base cell to a target cell and stores the cells
  of the walk in the caller's buffers \<open>pi\<close>, \<open>pj\<close>, \<open>pk\<close>.

  \<^item> Undefined behaviour of the source is a value of type \<open>error\<close>: a read of the
    offsets \<open>io\<close>, \<open>jo\<close>, \<open>ko\<close> before their first assignment, an access to
    \<open>ignore\<close> or \<open>track\<close> at a flat index outside \<open>[0, Nx*Ny*Nz)\<close>, and a write to the
    buffers \<open>pi\<close>, \<open>pj\<close>, \<open>pk\<close> at an index outside \<open>[0, Nx+Ny+Nz)\<close>.
  \<^item> The walk need not end: the loop is a partial function, \<open>None\<close> when it runs forever.
  \<^item> The weights are quotients of \<open>double\<close>s whose divisor can be zero. The type \<open>fp\<close>
    keeps the special values that such a quotient has in IEEE arithmetic (rounding is not
    modelled); a zero divisor is taken as \<open>+0\<close>, which it is for every divisor built from
    square roots.
  \<^item> The buffers \<open>pi\<close>, \<open>pj\<close>, \<open>pk\<close> are functions from the index. They are the ones that
    \<open>phi_calc_B\<close>, the only caller, allocates with \<open>new int [Nx+Ny+Nz]\<close>, so their valid
    indices are \<open>0, \<dots>, Nx+Ny+Nz-1\<close>. The loop admits a step at \<open>t = Nx+Ny+Nz-1\<close>, and that
    step writes at index \<open>Nx+Ny+Nz\<close>.
\<close>

datatype error = Uninitialised_offset | Out_of_bounds | Buffer_overflow

datatype fp = NaN | PInf | MInf | Fin real

definition fdiv :: "real \<Rightarrow> real \<Rightarrow> fp" where
  "fdiv a b = (if b \<noteq> 0 then Fin (a / b)
               else if a = 0 then NaN else if a > 0 then PInf else MInf)"

fun fadd :: "fp \<Rightarrow> fp \<Rightarrow> fp" where
  "fadd (Fin a) (Fin b) = Fin (a + b)"
| "fadd NaN _ = NaN"
| "fadd _ NaN = NaN"
| "fadd PInf MInf = NaN"
| "fadd MInf PInf = NaN"
| "fadd PInf _ = PInf"
| "fadd _ PInf = PInf"
| "fadd MInf _ = MInf"
| "fadd _ MInf = MInf"

fun fgt :: "fp \<Rightarrow> fp \<Rightarrow> bool" where
  "fgt (Fin a) (Fin b) = (a > b)"
| "fgt NaN _ = False"
| "fgt _ NaN = False"
| "fgt PInf PInf = False"
| "fgt PInf _ = True"
| "fgt MInf _ = False"
| "fgt (Fin a) PInf = False"
| "fgt (Fin a) MInf = True"

text \<open>
  The helper \<open>sign\<close> is declared in the header \<open>FN_knot_surface.h\<close>, which is not among the
  sources. It is assumed here to be the sign of an integer as \<open>-1\<close>, \<open>0\<close>, \<open>1\<close>.
\<close>

definition sign :: "int \<Rightarrow> int" where
  "sign i = (if i > 0 then 1 else if i < 0 then - 1 else 0)"

record bfield =
  Bx :: "int \<Rightarrow> real"
  By :: "int \<Rightarrow> real"
  Bz :: "int \<Rightarrow> real"
  Bmag :: "int \<Rightarrow> real"

definition in_range :: "grid \<Rightarrow> int \<Rightarrow> bool" where
  "in_range g n = (0 \<le> n \<and> n < gsize g)"

text \<open>The test \<open>If it is in the simulation box\<close> of the neighbour search.\<close>

definition in_box :: "grid \<Rightarrow> int \<times> int \<times> int \<Rightarrow> bool" where
  "in_box g c = (case c of (i, j, k) \<Rightarrow>
     i < Nx g \<and> i > 0 \<and> j < Ny g \<and> j > 0 \<and> k < Nz g \<and> k > 0)"

definition offsets27 :: "(int \<times> int \<times> int) list" where
  "offsets27 = concat (map (\<lambda>ip. concat (map (\<lambda>jp. map (\<lambda>kp. (ip, jp, kp)) [- 1..1])
                 [- 1..1])) [- 1..1])"

fun fold_err :: "('a \<Rightarrow> 's \<Rightarrow> error + 's) \<Rightarrow> 'a list \<Rightarrow> 's \<Rightarrow> error + 's" where
  "fold_err f [] s = Inr s"
| "fold_err f (x # xs) s = (case f x s of Inl e \<Rightarrow> Inl e | Inr s1 \<Rightarrow> fold_err f xs s1)"

definition weight1 :: "int \<times> int \<times> int \<Rightarrow> int \<times> int \<times> int \<Rightarrow> fp" where
  "weight1 d p = (case d of (di, dj, dk) \<Rightarrow> case p of (ip, jp, kp) \<Rightarrow>
     fdiv (real_of_int (di * ip + dj * jp + dk * kp))
          (sqrt (real_of_int (di * di + dj * dj + dk * dk)) *
           sqrt (real_of_int (ip * ip + jp * jp + kp * kp))))"

definition weight2 :: "bfield \<Rightarrow> int \<Rightarrow> int \<times> int \<times> int \<Rightarrow> fp" where
  "weight2 B np p = (case p of (ip, jp, kp) \<Rightarrow>
     fdiv (Bx B np * real_of_int ip + By B np * real_of_int jp + Bz B np * real_of_int kp)
          (Bmag B np * sqrt (real_of_int (ip * ip + jp * jp + kp * kp))))"

text \<open>
  One neighbour of the search. The accumulator is \<open>(MAX, go, (io, jo, ko), track)\<close>; \<open>cur\<close>
  is the cell \<open>(pi[t], pj[t], pk[t])\<close> and \<open>d\<close> the vector \<open>(di, dj, dk)\<close>.
\<close>

definition stop_flag :: "grid \<Rightarrow> (int \<Rightarrow> int) \<Rightarrow> (int \<Rightarrow> int) \<Rightarrow> int \<times> int \<times> int \<Rightarrow> int" where
  "stop_flag g ign trk c = (case c of (i, j, k) \<Rightarrow>
     if in_box g (i, j, k) then ign (pt g i j k) + trk (pt g i j k) else 1)"

definition search_cand ::
  "grid \<Rightarrow> (int \<Rightarrow> int) \<Rightarrow> bfield \<Rightarrow> int \<times> int \<times> int \<Rightarrow> int \<times> int \<times> int \<Rightarrow>
   int \<times> int \<times> int \<Rightarrow>
   fp \<times> int \<times> (int \<times> int \<times> int) option \<times> (int \<Rightarrow> int) \<Rightarrow>
   error + fp \<times> int \<times> (int \<times> int \<times> int) option \<times> (int \<Rightarrow> int)" where
  "search_cand g ign B cur d p acc =
     (case cur of (ci, cj, ck) \<Rightarrow> case p of (ip, jp, kp) \<Rightarrow>
      case acc of (MAXv, go, off, trk) \<Rightarrow>
        let np = pt g (ci + ip) (cj + jp) (ck + kp);
            stop = stop_flag g ign trk (ci + ip, cj + jp, ck + kp)
        in if stop = 0
           then
             let w = fadd (weight1 d p) (weight2 B np p)
             in if fgt w MAXv
                then if in_range g (pt g ci cj ck)
                     then Inr (w, 1, Some (ip, jp, kp), trk(pt g ci cj ck := 1))
                     else Inl Out_of_bounds
                else Inr (MAXv, 1, off, trk)
           else Inr (MAXv, go, off, trk))"

text \<open>
  The variables of the loop: the three buffers, the array \<open>track\<close>, the step counter \<open>t\<close>
  (\<open>tstep\<close>), the distance to the target and the offsets \<open>(io, jo, ko)\<close> of the last
  choice (\<open>None\<close> before the first).
\<close>

record pf_state =
  pi_arr :: "int \<Rightarrow> int"
  pj_arr :: "int \<Rightarrow> int"
  pk_arr :: "int \<Rightarrow> int"
  track :: "int \<Rightarrow> int"
  tstep :: int
  di :: int
  dj :: int
  dk :: int
  offs :: "(int \<times> int \<times> int) option"

datatype pf_next = Next pf_state | Give_up pf_state

definition set_distance :: "int \<times> int \<times> int \<Rightarrow> pf_state \<Rightarrow> pf_state" where
  "set_distance tgt s = (case tgt of (ie, je, ke) \<Rightarrow>
     s\<lparr>di := ie - pi_arr s (tstep s), dj := je - pj_arr s (tstep s),
       dk := ke - pk_arr s (tstep s)\<rparr>)"

text \<open>The number of entries of each of the buffers \<open>pi\<close>, \<open>pj\<close>, \<open>pk\<close>.\<close>

definition buffer_length :: "grid \<Rightarrow> int" where
  "buffer_length g = Nx g + Ny g + Nz g"

text \<open>One pass through the body of the \<open>while\<close> loop.\<close>

definition pathfind_step ::
  "grid \<Rightarrow> (int \<Rightarrow> int) \<Rightarrow> bfield \<Rightarrow> int \<times> int \<times> int \<Rightarrow> pf_state \<Rightarrow> error + pf_next" where
  "pathfind_step g ign B tgt s =
     (let t = tstep s;
          ci = pi_arr s t; cj = pj_arr s t; ck = pk_arr s t;
          ni = ci + sign (di s); nj = cj + sign (dj s); nk = ck + sign (dk s);
          nu = pt g ni nj nk
      in if \<not> in_range g nu then Inl Out_of_bounds
         else if ign nu + track s nu = 0
         then if buffer_length g \<le> t + 1 then Inl Buffer_overflow
              else Inr (Next (set_distance tgt
                (s\<lparr>pi_arr := (pi_arr s)(t + 1 := ni), pj_arr := (pj_arr s)(t + 1 := nj),
                   pk_arr := (pk_arr s)(t + 1 := nk), track := (track s)(nu := 1),
                   tstep := t + 1\<rparr>)))
         else
           (case fold_err (search_cand g ign B (ci, cj, ck) (di s, dj s, dk s)) offsets27
                   (Fin (- 10), 0, offs s, track s) of
              Inl e \<Rightarrow> Inl e
            | Inr (MAXv, go, off, trk) \<Rightarrow>
                if go = 1
                then (case off of
                        None \<Rightarrow> Inl Uninitialised_offset
                      | Some (io, jo, ko) \<Rightarrow>
                          if buffer_length g \<le> t + 1 then Inl Buffer_overflow
                          else Inr (Next (set_distance tgt
                            (s\<lparr>pi_arr := (pi_arr s)(t + 1 := ci + io),
                               pj_arr := (pj_arr s)(t + 1 := cj + jo),
                               pk_arr := (pk_arr s)(t + 1 := ck + ko),
                               track := trk, tstep := t + 1, offs := off\<rparr>))))
                else if t = 0 then Inr (Give_up (s\<lparr>track := trk, offs := off\<rparr>))
                else Inr (Next (set_distance tgt (s\<lparr>track := trk, tstep := t - 1, offs := off\<rparr>)))))"

definition path_bound :: "grid \<Rightarrow> int" where
  "path_bound g = Nx g + Ny g + Nz g"

definition pathfind_cond :: "grid \<Rightarrow> pf_state \<Rightarrow> bool" where
  "pathfind_cond g s =
     (tstep s < path_bound g \<and> (\<bar>di s\<bar> > 0 \<or> \<bar>dj s\<bar> > 0 \<or> \<bar>dk s\<bar> > 0))"

partial_function (option) pathfind_loop ::
  "grid \<Rightarrow> (int \<Rightarrow> int) \<Rightarrow> bfield \<Rightarrow> int \<times> int \<times> int \<Rightarrow> pf_state \<Rightarrow> (error + pf_next) option" where
  "pathfind_loop g ign B tgt s =
     (if pathfind_cond g s
      then (case pathfind_step g ign B tgt s of
              Inl e \<Rightarrow> Some (Inl e)
            | Inr (Give_up s1) \<Rightarrow> Some (Inr (Give_up s1))
            | Inr (Next s1) \<Rightarrow> pathfind_loop g ign B tgt s1)
      else Some (Inr (Next s)))"

definition pathfind_init ::
  "int \<times> int \<times> int \<Rightarrow> int \<times> int \<times> int \<Rightarrow> (int \<Rightarrow> int) \<Rightarrow> (int \<Rightarrow> int) \<Rightarrow> (int \<Rightarrow> int) \<Rightarrow> pf_state" where
  "pathfind_init start tgt pi0 pj0 pk0 =
     (case start of (i0, j0, k0) \<Rightarrow> case tgt of (ie, je, ke) \<Rightarrow>
        \<lparr>pi_arr = pi0(0 := i0), pj_arr = pj0(0 := j0), pk_arr = pk0(0 := k0),
         track = (\<lambda>n. 0), tstep = 0, di = ie - i0, dj = je - j0, dk = ke - k0,
         offs = None\<rparr>)"

text \<open>
  The result of \<open>pathfind\<close>: the returned length and the three buffers. \<open>Give_up\<close> is the
  \<open>return 0\<close> inside the loop (\<open>Could not find path\<close>); after the loop the length is reset
  to \<open>0\<close> when it equals \<open>Nx+Ny+Nz\<close>.
\<close>

definition pathfind_result ::
  "grid \<Rightarrow> pf_next \<Rightarrow> int \<times> (int \<Rightarrow> int) \<times> (int \<Rightarrow> int) \<times> (int \<Rightarrow> int)" where
  "pathfind_result g ex =
     (case ex of
        Give_up s \<Rightarrow> (0, pi_arr s, pj_arr s, pk_arr s)
      | Next s \<Rightarrow> ((if tstep s = path_bound g then 0 else tstep s), pi_arr s, pj_arr s, pk_arr s))"

text \<open>The first write, \<open>pi[0] = i0\<close>, needs buffers with at least one entry.\<close>

definition pathfind ::
  "grid \<Rightarrow> (int \<Rightarrow> int) \<Rightarrow> bfield \<Rightarrow> int \<times> int \<times> int \<Rightarrow> int \<times> int \<times> int \<Rightarrow>
   (int \<Rightarrow> int) \<Rightarrow> (int \<Rightarrow> int) \<Rightarrow> (int \<Rightarrow> int) \<Rightarrow>
   (error + int \<times> (int \<Rightarrow> int) \<times> (int \<Rightarrow> int) \<times> (int \<Rightarrow> int)) option" where
  "pathfind g ign B start tgt pi0 pj0 pk0 =
     (if buffer_length g \<le> 0 then Some (Inl Buffer_overflow)
      else case pathfind_loop g ign B tgt (pathfind_init start tgt pi0 pj0 pk0) of
             None \<Rightarrow> None
           | Some (Inl e) \<Rightarrow> Some (Inl e)
           | Some (Inr ex) \<Rightarrow> Some (Inr (pathfind_result g ex)))"

text \<open>
  Notions for statements about the loop: the cell \<open>(pi[t], pj[t], pk[t])\<close> of a state; the
  situation in which a pass neither takes the direct route nor finds a candidate (the cell
  on the direct route is excluded or visited, and so is each of the 27 cells the search
  looks at, the current cell among them, where a cell outside the box counts as excluded);
  and what every pass keeps: \<open>t\<close> is not negative, entry \<open>0\<close> of the buffers is the start
  cell, and \<open>(di, dj, dk)\<close> is the distance from the current cell to the target.
\<close>

definition pf_cell :: "pf_state \<Rightarrow> int \<times> int \<times> int" where
  "pf_cell s = (pi_arr s (tstep s), pj_arr s (tstep s), pk_arr s (tstep s))"

definition no_candidate :: "grid \<Rightarrow> (int \<Rightarrow> int) \<Rightarrow> pf_state \<Rightarrow> bool" where
  "no_candidate g ign s =
     (case pf_cell s of (ci, cj, ck) \<Rightarrow>
        (let nu = pt g (ci + sign (di s)) (cj + sign (dj s)) (ck + sign (dk s))
         in in_range g nu \<and> ign nu + track s nu \<noteq> 0) \<and>
        list_all (\<lambda>p. case p of (ip, jp, kp) \<Rightarrow>
                    stop_flag g ign (track s) (ci + ip, cj + jp, ck + kp) \<noteq> 0) offsets27)"

definition pf_inv :: "int \<times> int \<times> int \<Rightarrow> int \<times> int \<times> int \<Rightarrow> pf_state \<Rightarrow> bool" where
  "pf_inv start tgt s =
     (0 \<le> tstep s \<and> (pi_arr s 0, pj_arr s 0, pk_arr s 0) = start \<and>
      (case tgt of (ie, je, ke) \<Rightarrow>
         di s = ie - pi_arr s (tstep s) \<and> dj s = je - pj_arr s (tstep s) \<and>
         dk s = ke - pk_arr s (tstep s)))"

section \<open>Scalar potential for polyline input: \<open>phi_calc_B\<close>\<close>

record phi_state =
  phi_arr :: "int \<Rightarrow> real"
  missed_arr :: "int \<Rightarrow> int"
  bpi :: "int \<Rightarrow> int"
  bpj :: "int \<Rightarrow> int"
  bpk :: "int \<Rightarrow> int"

text \<open>
  One pass of the loop \<open>for (t=1;t<=pathlength;t++)\<close>: the increment over the step from
  path cell \<open>t-1\<close> to path cell \<open>t\<close>, with the midpoint value of the field, then the
  wrapping of the stored value.
\<close>

definition integrate_step ::
  "grid \<Rightarrow> real \<Rightarrow> bfield \<Rightarrow> (int \<Rightarrow> int) \<Rightarrow> (int \<Rightarrow> int) \<Rightarrow> (int \<Rightarrow> int) \<Rightarrow> int \<Rightarrow>
   (int \<Rightarrow> real) \<times> (int \<Rightarrow> int) \<Rightarrow> error + (int \<Rightarrow> real) \<times> (int \<Rightarrow> int)" where
  "integrate_step g hh B pa pb pc t acc =
     (case acc of (ph, ms) \<Rightarrow>
        let nt = pt g (pa t) (pb t) (pc t);
            ntm = pt g (pa (t - 1)) (pb (t - 1)) (pc (t - 1))
        in if \<not> in_range g nt \<or> \<not> in_range g ntm then Inl Out_of_bounds
           else
             let Bxmid = 0.5 * (Bx B nt + Bx B ntm);
                 Bymid = 0.5 * (By B nt + By B ntm);
                 Bzmid = 0.5 * (Bz B nt + Bz B ntm);
                 ph1 = ph(nt := ph ntm + hh * (Bxmid * real_of_int (pa t - pa (t - 1))
                                             + Bymid * real_of_int (pb t - pb (t - 1))
                                             + Bzmid * real_of_int (pc t - pc (t - 1))));
                 ms1 = ms(nt := 0)
             in Inr (ph1(nt := phase_wrap (ph1 nt)), ms1))"

text \<open>
  The body of both sweeps for one target cell: when the cell is still missed and not
  excluded, find a path from the base cell and integrate along it.
\<close>

definition visit_cell ::
  "grid \<Rightarrow> real \<Rightarrow> (int \<Rightarrow> int) \<Rightarrow> bfield \<Rightarrow> int \<times> int \<times> int \<Rightarrow> int \<times> int \<times> int \<Rightarrow>
   phi_state \<Rightarrow> (error + phi_state) option" where
  "visit_cell g hh ign B start tgt st =
     (case tgt of (ie, je, ke) \<Rightarrow>
        let n = pt g ie je ke
        in if missed_arr st n = 1 \<and> ign n = 0
           then (case pathfind g ign B start tgt (bpi st) (bpj st) (bpk st) of
                   None \<Rightarrow> None
                 | Some (Inl e) \<Rightarrow> Some (Inl e)
                 | Some (Inr (pathlength, pa, pb, pc)) \<Rightarrow>
                     (case fold_err (integrate_step g hh B pa pb pc) [1..pathlength]
                             (phi_arr st, missed_arr st) of
                        Inl e \<Rightarrow> Some (Inl e)
                      | Inr (ph, ms) \<Rightarrow>
                          Some (Inr \<lparr>phi_arr = ph, missed_arr = ms, bpi = pa, bpj = pb, bpk = pc\<rparr>)))
           else Some (Inr st))"

fun fold_res :: "('a \<Rightarrow> 's \<Rightarrow> (error + 's) option) \<Rightarrow> 'a list \<Rightarrow> 's \<Rightarrow> (error + 's) option" where
  "fold_res f [] s = Some (Inr s)"
| "fold_res f (x # xs) s =
     (case f x s of None \<Rightarrow> None | Some (Inl e) \<Rightarrow> Some (Inl e) | Some (Inr s1) \<Rightarrow> fold_res f xs s1)"

text \<open>The targets of the first sweep, inward from the eight corners.\<close>

definition corner_targets :: "grid \<Rightarrow> (int \<times> int \<times> int) list" where
  "corner_targets g =
     concat (map (\<lambda>id. concat (map (\<lambda>jd. concat (map (\<lambda>kd.
       concat (map (\<lambda>c1. concat (map (\<lambda>c2. map (\<lambda>c3.
         ((if c1 = 0 then id else Nx g - 1 - id),
          (if c2 = 0 then jd else Ny g - 1 - jd),
          (if c3 = 0 then kd else Nz g - 1 - kd)))
         [0, 1 :: int]) [0, 1 :: int])) [0, 1 :: int]))
       [0..(Nz g + 1) div 2 - 1])) [0..(Ny g + 1) div 2 - 1])) [0..(Nx g + 1) div 2 - 1])"

definition base_cell :: "grid \<Rightarrow> int \<times> int \<times> int" where
  "base_cell g = ((Nx g + 1) div 2, (Ny g + 1) div 2, (Nz g + 1) div 2)"

definition phi_calc_B ::
  "grid \<Rightarrow> real \<Rightarrow> bfield \<Rightarrow> (int \<Rightarrow> int) \<Rightarrow> (int \<Rightarrow> int) \<Rightarrow> phi_state \<Rightarrow> (error + phi_state) option" where
  "phi_calc_B g hh B ignore ignore1 st =
     (case base_cell g of (i0, j0, k0) \<Rightarrow>
        let n = pt g i0 j0 k0;
            st0 = st\<lparr>missed_arr := (missed_arr st)(n := 0), phi_arr := (phi_arr st)(n := 0)\<rparr>
        in case fold_res (visit_cell g hh ignore B (i0, j0, k0)) (corner_targets g) st0 of
             None \<Rightarrow> None
           | Some (Inl e) \<Rightarrow> Some (Inl e)
           | Some (Inr st1) \<Rightarrow> fold_res (visit_cell g hh ignore1 B (i0, j0, k0)) (cells g) st1)"

text \<open>
  A stored phase value counts as wrapped when it lies in \<open>[-\<pi>, \<pi>]\<close>. The second predicate
  relates the arrays \<open>phi\<close> and \<open>missed\<close> before and after a run: an entry is either as
  it was, in both arrays, or holds a wrapped phase.
\<close>

definition wrapped :: "real \<Rightarrow> bool" where
  "wrapped p = (- pi \<le> p \<and> p \<le> pi)"

definition kept_or_wrapped ::
  "(int \<Rightarrow> real) \<Rightarrow> (int \<Rightarrow> int) \<Rightarrow> (int \<Rightarrow> real) \<Rightarrow> (int \<Rightarrow> int) \<Rightarrow> bool" where
  "kept_or_wrapped ph0 ms0 ph ms = (\<forall>n. (ph n = ph0 n \<and> ms n = ms0 n) \<or> wrapped (ph n))"

section \<open>Concrete inputs\<close>

text \<open>Small inputs on which the functions above are evaluated further down.\<close>

definition grid2 :: grid where
  "grid2 = \<lparr>Nx = 2, Ny = 2, Nz = 2\<rparr>"

definition missed_first :: "int \<Rightarrow> int" where
  "missed_first n = (if n = 0 then 1 else 0)"

definition phi_ramp :: "int \<Rightarrow> real" where
  "phi_ramp n = real_of_int n"

definition field_zero :: "int \<Rightarrow> real" where
  "field_zero n = 0"

definition cell_magnitude ::
  "grid \<Rightarrow> (int \<Rightarrow> real) \<Rightarrow> (int \<Rightarrow> real) \<Rightarrow> (int \<Rightarrow> real) \<Rightarrow> int \<times> int \<times> int \<Rightarrow> real" where
  "cell_magnitude g ucvx ucvy ucvz c = (case c of (i, j, k) \<Rightarrow> ucv_magnitude ucvx ucvy ucvz (pt g i j k))"

definition grid442 :: grid where
  "grid442 = \<lparr>Nx = 4, Ny = 4, Nz = 2\<rparr>"

definition peak_at6 :: "int \<Rightarrow> real" where
  "peak_at6 n = (if n = 6 then 1 else 0)"

definition marked_low :: "int \<Rightarrow> bool" where
  "marked_low i = (i = 0 \<or> i = 1)"

definition marked_zero :: "int \<Rightarrow> bool" where
  "marked_zero i = (i = 0)"

definition incw_clamp :: "int \<Rightarrow> int \<Rightarrow> int \<Rightarrow> int" where
  "incw_clamp i p N = max 0 (min (N - 1) (i + p))"

definition incp_wrap :: "int \<Rightarrow> int \<Rightarrow> int \<Rightarrow> int" where
  "incp_wrap i p N = (i + p) mod N"

definition config0 :: config where
  "config0 = \<lparr>cgrid = grid442, h = 1, dtime = 1 / 50, lambda = 1, epsilon = 3 / 10,
     beta = 7 / 10, gam = 1 / 2, periodic = False, incw = incw_clamp, incp = incp_wrap\<rparr>"

definition seed0 :: knotpoint where
  "seed0 = \<lparr>xcoord = 0, ycoord = 0, zcoord = 0\<rparr>"

definition stay_trial :: "knotpoint \<Rightarrow> knotpoint" where
  "stay_trial p = p"

definition stay_refine :: "knotpoint \<Rightarrow> knotpoint \<Rightarrow> knotpoint" where
  "stay_refine prev test = test"

definition no_marks :: marks where
  "no_marks = ((\<lambda>i. False), (\<lambda>j. False), (\<lambda>k. False))"

definition rk_state0 :: rk_state where
  "rk_state0 = \<lparr>u = phi_ramp, v = field_zero, ku = field_zero, kv = field_zero,
     kut = field_zero, kvt = field_zero, uold = field_zero, vold = field_zero\<rparr>"

definition bfield_x :: bfield where
  "bfield_x = \<lparr>Bx = (\<lambda>n. 1), By = (\<lambda>n. 0), Bz = (\<lambda>n. 0), Bmag = (\<lambda>n. 1)\<rparr>"

definition all_set :: "int \<Rightarrow> int" where
  "all_set n = 1"

definition zero_buf :: "int \<Rightarrow> int" where
  "zero_buf t = 0"

definition ignore_but3 :: "int \<Rightarrow> int" where
  "ignore_but3 n = (if n = 3 then 0 else 1)"

definition phi_five :: "int \<Rightarrow> real" where
  "phi_five n = 5"

definition phi_state0 :: phi_state where
  "phi_state0 = \<lparr>phi_arr = phi_five, missed_arr = all_set,
     bpi = zero_buf, bpj = zero_buf, bpk = zero_buf\<rparr>"

definition grid1 :: grid where
  "grid1 = \<lparr>Nx = 1, Ny = 1, Nz = 1\<rparr>"

definition tri_pi :: triangle where
  "tri_pi = \<lparr>centre = (1, 0, 0), normal = (- 1, 0, 0), area = 2 * pi\<rparr>"

definition ignore_c9 :: "int \<Rightarrow> int" where
  "ignore_c9 n = (if n = 21 \<or> n = 19 \<or> n = 10 \<or> n = 4 then 0 else 1)"

definition ignore_ends :: "int \<Rightarrow> int" where
  "ignore_ends n = (if n = 21 \<or> n = 4 then 0 else 1)"

definition ignore_three :: "int \<Rightarrow> int" where
  "ignore_three n = (if n = 21 \<or> n = 19 \<or> n = 4 then 0 else 1)"

definition seed_corner :: knotpoint where
  "seed_corner = \<lparr>xcoord = - 2, ycoord = - 2, zcoord = - 1\<rparr>"

definition far_point :: knotpoint where
  "far_point = \<lparr>xcoord = 2, ycoord = 2, zcoord = 1\<rparr>"

definition far_trial :: "knotpoint \<Rightarrow> knotpoint" where
  "far_trial p = far_point"

definition seed_outside :: knotpoint where
  "seed_outside = \<lparr>xcoord = 10, ycoord = 0, zcoord = 0\<rparr>"

definition keep_curve :: "knotpoint list \<Rightarrow> knotpoint list" where
  "keep_curve curve = curve"

definition atan2_zero :: "real \<Rightarrow> real \<Rightarrow> real" where
  "atan2_zero a b = 0"

section \<open>Lemmas on the initial state\<close>

lemma uv_initialise_cell_other:
  "m \<noteq> n \<Longrightarrow>
   fst (uv_initialise_cell opt phi missed n uv) m = fst uv m \<and>
   snd (uv_initialise_cell opt phi missed n uv) m = snd uv m"
  by (cases uv) (simp add: uv_initialise_cell_def Let_def)

lemma uv_initialise_cell_same:
  "fst (uv_initialise_cell opt phi missed n uv) n =
     (if opt = FROM_KNOT_FILE \<and> missed n = 1 then - 0.4 else 2 * cos (phi n) - 0.4) \<and>
   snd (uv_initialise_cell opt phi missed n uv) n =
     (if opt = FROM_KNOT_FILE \<and> missed n = 1 then - 0.4 else sin (phi n) - 0.4)"
  by (cases uv) (simp add: uv_initialise_cell_def Let_def)

lemma fold_uv_initialise_cell:
  "distinct ns \<Longrightarrow>
   fst (fold (uv_initialise_cell opt phi missed) ns uv) n =
     (if n \<in> set ns
      then (if opt = FROM_KNOT_FILE \<and> missed n = 1 then - 0.4 else 2 * cos (phi n) - 0.4)
      else fst uv n) \<and>
   snd (fold (uv_initialise_cell opt phi missed) ns uv) n =
     (if n \<in> set ns
      then (if opt = FROM_KNOT_FILE \<and> missed n = 1 then - 0.4 else sin (phi n) - 0.4)
      else snd uv n)"
proof (induction ns arbitrary: uv)
  case Nil
  show ?case by simp
next
  case (Cons a ns)
  from Cons.prems have d: "distinct ns" and a: "a \<notin> set ns" by simp_all
  show ?case
  proof (cases "n = a")
    case True
    with a Cons.IH [OF d, of "uv_initialise_cell opt phi missed a uv"]
    show ?thesis using uv_initialise_cell_same [of opt phi missed a uv] by simp
  next
    case False
    with Cons.IH [OF d, of "uv_initialise_cell opt phi missed a uv"]
    show ?thesis using uv_initialise_cell_other [of n a opt phi missed uv] by simp
  qed
qed

lemma uv_initialise_value:
  assumes "0 \<le> n" and "n < gsize g"
  shows "fst (uv_initialise g opt phi missed uv) n =
           (if opt = FROM_KNOT_FILE \<and> missed n = 1 then - 0.4 else 2 * cos (phi n) - 0.4)"
    and "snd (uv_initialise g opt phi missed uv) n =
           (if opt = FROM_KNOT_FILE \<and> missed n = 1 then - 0.4 else sin (phi n) - 0.4)"
  using assms fold_uv_initialise_cell [of "[0..gsize g - 1]" opt phi missed uv n]
  by (simp_all add: uv_initialise_def)


text \<open>
  Claim C4. For knot-file input, a cell that is still flagged missed gets the fixed state
  \<open>u = -0.4\<close>, \<open>v = -0.4\<close>, whatever its phase value is; every other cell gets
  \<open>u = 2 cos \<phi> - 0.4\<close> and \<open>v = sin \<phi> - 0.4\<close>, a function of its own phase value only.
\<close>

theorem uv_initialise_missed_baseline:
  assumes "0 \<le> n" and "n < gsize g"
  shows "(missed n = 1 \<longrightarrow>
            fst (uv_initialise g FROM_KNOT_FILE phi missed uv) n = - 0.4 \<and>
            snd (uv_initialise g FROM_KNOT_FILE phi missed uv) n = - 0.4) \<and>
         (missed n \<noteq> 1 \<longrightarrow>
            fst (uv_initialise g FROM_KNOT_FILE phi missed uv) n = 2 * cos (phi n) - 0.4 \<and>
            snd (uv_initialise g FROM_KNOT_FILE phi missed uv) n = sin (phi n) - 0.4)"
  using uv_initialise_value [OF assms, of FROM_KNOT_FILE phi missed uv] by simp

theorem uv_initialise_missed_baseline_witness:
  "fst (uv_initialise grid2 FROM_KNOT_FILE phi_ramp missed_first (field_zero, field_zero)) 0 = - 0.4 \<and>
   snd (uv_initialise grid2 FROM_KNOT_FILE phi_ramp missed_first (field_zero, field_zero)) 0 = - 0.4 \<and>
   fst (uv_initialise grid2 FROM_KNOT_FILE phi_ramp missed_first (field_zero, field_zero)) 3
     = 2 * cos 3 - 0.4 \<and>
   snd (uv_initialise grid2 FROM_KNOT_FILE phi_ramp missed_first (field_zero, field_zero)) 3
     = sin 3 - 0.4"
  using uv_initialise_missed_baseline
          [of 0 grid2 missed_first phi_ramp "(field_zero, field_zero)"]
        uv_initialise_missed_baseline
          [of 3 grid2 missed_first phi_ramp "(field_zero, field_zero)"]
  by (simp add: grid2_def gsize_def missed_first_def phi_ramp_def)

text \<open>
  Claim C10. After \<open>uv_initialise\<close> every cell of the grid has \<open>u\<close> in \<open>[-2.4, 1.6]\<close> and
  \<open>v\<close> in \<open>[-1.4, 0.6]\<close>, for every phase field, every initialisation option and every
  content of the missed flags.
\<close>

theorem uv_initialise_bounded:
  assumes "0 \<le> n" and "n < gsize g"
  shows "- 2.4 \<le> fst (uv_initialise g opt phi missed uv) n \<and>
         fst (uv_initialise g opt phi missed uv) n \<le> 1.6 \<and>
         - 1.4 \<le> snd (uv_initialise g opt phi missed uv) n \<and>
         snd (uv_initialise g opt phi missed uv) n \<le> 0.6"
proof (cases "opt = FROM_KNOT_FILE \<and> missed n = 1")
  case True
  then show ?thesis
    using uv_initialise_value [OF assms, of opt phi missed uv] by simp
next
  case False
  then have val: "fst (uv_initialise g opt phi missed uv) n = 2 * cos (phi n) - 0.4"
    "snd (uv_initialise g opt phi missed uv) n = sin (phi n) - 0.4"
    using uv_initialise_value [OF assms, of opt phi missed uv] by auto
  have "- 1 \<le> cos (phi n)" and "cos (phi n) \<le> 1"
    and "- 1 \<le> sin (phi n)" and "sin (phi n) \<le> 1"
    by simp_all
  then show ?thesis unfolding val by linarith
qed

theorem uv_initialise_bounded_witness:
  "- 2.4 \<le> fst (uv_initialise grid2 FROM_KNOT_FILE phi_ramp missed_first (field_zero, field_zero)) 7 \<and>
   fst (uv_initialise grid2 FROM_KNOT_FILE phi_ramp missed_first (field_zero, field_zero)) 7 \<le> 1.6 \<and>
   - 1.4 \<le> snd (uv_initialise grid2 FROM_KNOT_FILE phi_ramp missed_first (field_zero, field_zero)) 7 \<and>
   snd (uv_initialise grid2 FROM_KNOT_FILE phi_ramp missed_first (field_zero, field_zero)) 7 \<le> 0.6"
  using uv_initialise_bounded
          [of 7 grid2 FROM_KNOT_FILE phi_ramp missed_first "(field_zero, field_zero)"]
  by (simp add: grid2_def gsize_def)

section \<open>Geometry normalisation\<close>

lemma min_scale_loop:
  assumes "(if p then [a] else []) @ (if q then [b] else []) @ (if r then [c] else []) = fs"
    and "fs \<noteq> []" and "Min (set fs) < M"
  shows "snd (fold (min_scale_step [a, b, c] [p, q, r]) [0, 1, 2] (M, 3)) < 3 \<and>
         [a, b, c] ! snd (fold (min_scale_step [a, b, c] [p, q, r]) [0, 1, 2] (M, 3)) = Min (set fs)"
  using assms
  by (cases p; cases q; cases r) (auto simp: min_scale_step_def min_def)

text \<open>
  With aspect-ratio preservation, when some axis of positive input extent has a factor
  below the start value \<open>10\<^sup>9\<close> of the minimum search, the three returned factors are equal
  to the least factor among the axes of positive input extent.
\<close>

lemma scalefunction_preserve_min:
  assumes ne: "axis_factors xmax ymax zmax maxxin minxin maxyin minyin maxzin minzin \<noteq> []"
    and small: "Min (set (axis_factors xmax ymax zmax maxxin minxin maxyin minyin maxzin minzin))
                  < 1000000000"
  shows "fst (scalefunction True xmax ymax zmax maxxin minxin maxyin minyin maxzin minzin)
           = replicate 3 (Min (set (axis_factors xmax ymax zmax maxxin minxin maxyin minyin
                                      maxzin minzin)))"
proof -
  define fs where "fs = axis_factors xmax ymax zmax maxxin minxin maxyin minyin maxzin minzin"
  define a where "a = (if maxxin - minxin > 0 then xmax / (maxxin - minxin) else 1)"
  define b where "b = (if maxyin - minyin > 0 then ymax / (maxyin - minyin) else 1)"
  define c where "c = (if maxzin - minzin > 0 then zmax / (maxzin - minzin) else 1)"
  define r where "r = fold (min_scale_step [a, b, c]
      [maxxin - minxin > 0, maxyin - minyin > 0, maxzin - minzin > 0]) [0, 1, 2] (1000000000, 3)"
  have fs': "(if maxxin - minxin > 0 then [a] else []) @ (if maxyin - minyin > 0 then [b] else [])
      @ (if maxzin - minzin > 0 then [c] else []) = fs"
    by (simp add: fs_def axis_factors_def a_def b_def c_def)
  from ne small have "fs \<noteq> []" and "Min (set fs) < 1000000000" by (simp_all add: fs_def)
  from min_scale_loop [OF fs' this]
  have r: "snd r < 3" "[a, b, c] ! snd r = Min (set fs)" by (simp_all add: r_def)
  have "scalefunction True xmax ymax zmax maxxin minxin maxyin minyin maxzin minzin
      = (case r of (minscale, imin) \<Rightarrow>
           if imin < 3
           then (fold (\<lambda>i sc. sc[i := sc ! imin]) [0, 1, 2] [a, b, c],
                 [0.5 * (maxxin + minxin), 0.5 * (maxyin + minyin), 0.5 * (maxzin + minzin)])
           else ([a, b, c],
                 [0.5 * (maxxin + minxin), 0.5 * (maxyin + minyin), 0.5 * (maxzin + minzin)]))"
    by (simp only: scalefunction_def Let_def a_def b_def c_def r_def if_True)
  then have sf: "fst (scalefunction True xmax ymax zmax maxxin minxin maxyin minyin maxzin minzin)
      = fold (\<lambda>i sc. sc[i := sc ! snd r]) [0, 1, 2] [a, b, c]"
    using r(1) by (cases r) simp
  from r(1) have "snd r = 0 \<or> snd r = 1 \<or> snd r = 2" by linarith
  then have "fold (\<lambda>i sc. sc[i := sc ! snd r]) [0, 1, 2] [a, b, c]
               = [Min (set fs), Min (set fs), Min (set fs)]"
    using r(2) by auto
  with sf have "fst (scalefunction True xmax ymax zmax maxxin minxin maxyin minyin maxzin minzin)
      = [Min (set fs), Min (set fs), Min (set fs)]"
    by (simp only:)
  moreover have "replicate 3 (Min (set fs)) = [Min (set fs), Min (set fs), Min (set fs)]"
    by (simp add: numeral_3_eq_3)
  ultimately show ?thesis
    by (simp only: fs_def)
qed

lemma scalefunction_preserve_example:
  "axis_factors 96 96 48 2 0 4 0 5 5 \<noteq> [] \<and>
   Min (set (axis_factors 96 96 48 2 0 4 0 5 5)) < 1000000000 \<and>
   fst (scalefunction True 96 96 48 2 0 4 0 5 5) = [24, 24, 24]"
  using scalefunction_preserve_min [of 96 96 48 2 0 4 0 5 5]
  by (simp add: axis_factors_def numeral_3_eq_3)

text \<open>
  When no axis of positive input extent has a factor below \<open>10\<^sup>9\<close>, the search leaves
  \<open>imin = 3\<close> and the per-axis factors are returned as they were computed.
\<close>

lemma scalefunction_none_selected:
  assumes "list_all (\<lambda>f. 1000000000 \<le> f)
             (axis_factors xmax ymax zmax maxxin minxin maxyin minyin maxzin minzin)"
  shows "fst (scalefunction True xmax ymax zmax maxxin minxin maxyin minyin maxzin minzin)
           = [if maxxin - minxin > 0 then xmax / (maxxin - minxin) else 1,
              if maxyin - minyin > 0 then ymax / (maxyin - minyin) else 1,
              if maxzin - minzin > 0 then zmax / (maxzin - minzin) else 1]"
  using assms
  by (cases "maxxin - minxin > 0"; cases "maxyin - minyin > 0"; cases "maxzin - minzin > 0")
     (simp_all add: scalefunction_def axis_factors_def min_scale_step_def Let_def)

text \<open>
  Claim C7 does not hold of the code. All three input extents are positive here
  (\<open>10\<^sup>-\<^sup>1\<^sup>0\<close>, \<open>5\<cdot>10\<^sup>-\<^sup>1\<^sup>1\<close>, \<open>10\<^sup>-\<^sup>1\<^sup>0\<close>, target extents \<open>1\<close>), so the per-axis factors are
  \<open>10\<^sup>1\<^sup>0\<close>, \<open>2\<cdot>10\<^sup>1\<^sup>0\<close>, \<open>10\<^sup>1\<^sup>0\<close> with minimum \<open>10\<^sup>1\<^sup>0\<close>. None of them is below the start value
  \<open>minscale = 1000000000\<close> of the loop commented \<open>find minimum scale factor\<close>, so no axis
  is selected, the step commented \<open>scale x,y, and z directions by same scale factor\<close> is
  skipped, and the three returned factors differ.
\<close>

theorem scalefunction_unequal_factors:
  "axis_factors 1 1 1 (1 / 10 ^ 10) 0 (1 / (2 * 10 ^ 10)) 0 (1 / 10 ^ 10) 0
     = [10 ^ 10, 2 * 10 ^ 10, 10 ^ 10] \<and>
   fst (scalefunction True 1 1 1 (1 / 10 ^ 10) 0 (1 / (2 * 10 ^ 10)) 0 (1 / 10 ^ 10) 0)
     = [10 ^ 10, 2 * 10 ^ 10, 10 ^ 10]"
  by (simp add: scalefunction_def axis_factors_def min_scale_step_def Let_def)

section \<open>Component correspondence\<close>

lemma match_fold:
  "fst (fold (match_step absdiff oldsize sizes) qs acc) = (if qs = [] then fst acc else last qs)"
  by (induction qs arbitrary: acc) (auto simp: match_step_def Let_def split: prod.splits)

text \<open>
  Whatever the point counts are, the loop ends with \<open>d\<close> equal to the last index: the
  assignment \<open>d = q\<close> is not under the \<open>if\<close>, and \<open>mindiff\<close> starts at \<open>-1\<close>.
\<close>

lemma match_component_last:
  "sizes \<noteq> [] \<Longrightarrow> match_component absdiff oldsize sizes = length sizes - 1"
  by (simp add: match_component_def match_fold)

text \<open>
  Claim C8 on the code. A previous component of 120 points and two current components of
  120 and 300 points: the nearest in point count is component 0, the code selects
  component 1.
\<close>

theorem match_component_not_nearest:
  "match_component size_diff 120 [120, 300] = 1 \<and>
   nearest_in_size 120 [120, 300] 0 \<and> \<not> nearest_in_size 120 [120, 300] 1"
  by (simp add: match_component_last nearest_in_size_def size_diff_def)

section \<open>Seed search\<close>

lemma in_set_cells: "(i, j, k) \<in> set (cells g) \<longleftrightarrow> in_grid g (i, j, k)"
proof -
  have "(i, j, k) \<in> set (cells g) \<longleftrightarrow>
        i \<in> {0..Nx g - 1} \<and> j \<in> {0..Ny g - 1} \<and> k \<in> {0..Nz g - 1}"
  proof -
    have "set (cells g) = (\<Union>a\<in>{0..Nx g - 1}. \<Union>b\<in>{0..Ny g - 1}. (\<lambda>c. (a, b, c)) ` {0..Nz g - 1})"
      by (simp add: cells_def)
    then show ?thesis by blast
  qed
  then show ?thesis by (auto simp: in_grid_def)
qed

lemma set_cells: "set (cells g) = {c. in_grid g c}"
  using in_set_cells by auto

lemma ucv_magnitude_nonneg: "0 \<le> ucv_magnitude ucvx ucvy ucvz n"
  by (simp add: ucv_magnitude_def)

lemma scan_fold:
  assumes "fold (scan_cell g ucvx ucvy ucvz xm ym zm) cs acc = (m, cm)"
  shows "fst acc \<le> m \<and>
         (\<forall>c \<in> set cs. cell_unmarked xm ym zm c \<longrightarrow> cell_magnitude g ucvx ucvy ucvz c \<le> m) \<and>
         ((m, cm) = acc \<or>
          (\<exists>c \<in> set cs. cell_unmarked xm ym zm c \<and> cm = Some c \<and>
                m = cell_magnitude g ucvx ucvy ucvz c \<and> fst acc < m))"
  using assms
proof (induction cs arbitrary: acc)
  case Nil
  then show ?case by simp
next
  case (Cons c cs)
  let ?a = "scan_cell g ucvx ucvy ucvz xm ym zm c acc"
  from Cons.prems have f: "fold (scan_cell g ucvx ucvy ucvz xm ym zm) cs ?a = (m, cm)" by simp
  note ih = Cons.IH [OF f]
  have step: "fst acc \<le> fst ?a \<and>
      (cell_unmarked xm ym zm c \<longrightarrow> cell_magnitude g ucvx ucvy ucvz c \<le> fst ?a) \<and>
      (?a = acc \<or> (cell_unmarked xm ym zm c \<and> ?a = (cell_magnitude g ucvx ucvy ucvz c, Some c)
          \<and> fst acc < cell_magnitude g ucvx ucvy ucvz c))"
    by (cases c) (auto simp: scan_cell_def cell_unmarked_def cell_magnitude_def Let_def)
  from ih step show ?case by (auto; force)
qed


lemma find_seed_grid442:
  "find_seed grid442 peak_at6 field_zero field_zero marked_low marked_low marked_zero
     = (1, Some (0, 3, 0))"
  by (simp add: find_seed_def cells_def grid442_def scan_cell_def pt_def ucv_magnitude_def
        peak_at6_def field_zero_def marked_low_def marked_zero_def Let_def upto.simps)

text \<open>
  Claim C5, as the code has it. The scan skips a cell only when its \<open>i\<close> stratum, its \<open>j\<close>
  stratum and its \<open>k\<close> stratum are all three marked. Over the cells it does not skip,
  \<open>ucvmax\<close> is the greatest magnitude and the seed is a cell where it is attained; when
  every cell is skipped, \<open>ucvmax\<close> keeps its start value \<open>-1\<close>. The extraction loop goes on
  exactly when some cell that is not skipped has magnitude at least \<open>0.7\<close>.
\<close>

theorem find_seed_maximum:
  assumes fs: "find_seed g ucvx ucvy ucvz xm ym zm = (ucvmax, seed)"
  shows "(\<forall>c. in_grid g c \<and> cell_unmarked xm ym zm c \<longrightarrow>
              cell_magnitude g ucvx ucvy ucvz c \<le> ucvmax) \<and>
         ((ucvmax = - 1 \<and> seed = None \<and> (\<nexists>c. in_grid g c \<and> cell_unmarked xm ym zm c)) \<or>
          (\<exists>c. seed = Some c \<and> in_grid g c \<and> cell_unmarked xm ym zm c \<and>
               ucvmax = cell_magnitude g ucvx ucvy ucvz c)) \<and>
         (knotcomponentsexist g ucvx ucvy ucvz xm ym zm
            = (\<exists>c. in_grid g c \<and> cell_unmarked xm ym zm c \<and>
                   0.7 \<le> cell_magnitude g ucvx ucvy ucvz c))"
proof -
  from fs have f: "fold (scan_cell g ucvx ucvy ucvz xm ym zm) (cells g) (- 1, None) = (ucvmax, seed)"
    by (simp add: find_seed_def)
  note sf = scan_fold [OF f]
  have nonneg: "0 \<le> cell_magnitude g ucvx ucvy ucvz c" for c
    by (cases c) (simp add: cell_magnitude_def ucv_magnitude_nonneg)
  from sf have ub: "\<forall>c. in_grid g c \<and> cell_unmarked xm ym zm c \<longrightarrow>
              cell_magnitude g ucvx ucvy ucvz c \<le> ucvmax"
    by (simp add: set_cells)
  from sf have alt: "(ucvmax, seed) = (- 1, None) \<or>
      (\<exists>c. in_grid g c \<and> cell_unmarked xm ym zm c \<and> seed = Some c \<and>
           ucvmax = cell_magnitude g ucvx ucvy ucvz c)"
    by (auto simp: set_cells)
  have none: "\<nexists>c. in_grid g c \<and> cell_unmarked xm ym zm c" if "ucvmax = - 1"
  proof
    assume "\<exists>c. in_grid g c \<and> cell_unmarked xm ym zm c"
    then obtain c where "in_grid g c" "cell_unmarked xm ym zm c" by blast
    with ub have "cell_magnitude g ucvx ucvy ucvz c \<le> ucvmax" by blast
    with nonneg [of c] that show False by simp
  qed
  have second: "(ucvmax = - 1 \<and> seed = None \<and> (\<nexists>c. in_grid g c \<and> cell_unmarked xm ym zm c)) \<or>
          (\<exists>c. seed = Some c \<and> in_grid g c \<and> cell_unmarked xm ym zm c \<and>
               ucvmax = cell_magnitude g ucvx ucvy ucvz c)"
    using alt none by auto
  have kce: "knotcomponentsexist g ucvx ucvy ucvz xm ym zm = (0.7 \<le> ucvmax)"
    using fs by (simp add: knotcomponentsexist_def not_less)
  have third: "(0.7 \<le> ucvmax) = (\<exists>c. in_grid g c \<and> cell_unmarked xm ym zm c \<and>
                   0.7 \<le> cell_magnitude g ucvx ucvy ucvz c)"
  proof
    assume "0.7 \<le> ucvmax"
    with second show "\<exists>c. in_grid g c \<and> cell_unmarked xm ym zm c \<and>
                   0.7 \<le> cell_magnitude g ucvx ucvy ucvz c"
      by auto
  next
    assume "\<exists>c. in_grid g c \<and> cell_unmarked xm ym zm c \<and>
                   0.7 \<le> cell_magnitude g ucvx ucvy ucvz c"
    with ub show "0.7 \<le> ucvmax" by force
  qed
  from ub second kce third show ?thesis by simp
qed

theorem find_seed_maximum_witness:
  "find_seed grid442 peak_at6 field_zero field_zero marked_low marked_low marked_zero
     = (1, Some (0, 3, 0)) \<and>
   in_grid grid442 (2, 2, 1) \<and> cell_unmarked marked_low marked_low marked_zero (2, 2, 1) \<and>
   cell_magnitude grid442 peak_at6 field_zero field_zero (2, 2, 1) \<le> 1 \<and>
   knotcomponentsexist grid442 peak_at6 field_zero field_zero marked_low marked_low marked_zero"
proof -
  note fs = find_seed_grid442
  have c: "in_grid grid442 (2, 2, 1)" "cell_unmarked marked_low marked_low marked_zero (2, 2, 1)"
    by (simp_all add: in_grid_def grid442_def cell_unmarked_def marked_low_def)
  have p: "in_grid grid442 (0, 3, 0) \<and> cell_unmarked marked_low marked_low marked_zero (0, 3, 0) \<and>
     0.7 \<le> cell_magnitude grid442 peak_at6 field_zero field_zero (0, 3, 0)"
    by (simp add: in_grid_def grid442_def cell_unmarked_def marked_low_def cell_magnitude_def
          ucv_magnitude_def pt_def peak_at6_def field_zero_def)
  from find_seed_maximum [OF fs] c p fs show ?thesis by blast
qed

text \<open>
  The claim as the specification states it counts a cell as marked as soon as one of its
  strata is marked. Here the \<open>i\<close> stratum and the \<open>k\<close> stratum of the cell \<open>(0, 3, 0)\<close> are
  marked, its \<open>j\<close> stratum is not: the scan takes the cell as the seed and the loop goes on.
\<close>

theorem find_seed_marked_counterexample:
  "find_seed grid442 peak_at6 field_zero field_zero marked_low marked_low marked_zero
     = (1, Some (0, 3, 0)) \<and>
   spec_cell_marked marked_low marked_low marked_zero (0, 3, 0) \<and>
   knotcomponentsexist grid442 peak_at6 field_zero field_zero marked_low marked_low marked_zero"
  using find_seed_grid442
  by (simp add: spec_cell_marked_def marked_low_def marked_zero_def knotcomponentsexist_def)

section \<open>Curve tracing\<close>

lemma nth_of_take_eq:
  assumes "take n c1 = take n c2" and "i < n"
  shows "c1 ! i = c2 ! i"
proof -
  have "c1 ! i = take n c1 ! i" using assms(2) by (rule nth_take [symmetric])
  also have "\<dots> = take n c2 ! i" by (simp only: assms(1))
  also have "\<dots> = c2 ! i" using assms(2) by (rule nth_take)
  finally show ?thesis .
qed

lemma start_distance_prefix:
  assumes "take (Suc j) c1 = take (Suc j) c2"
  shows "start_distance c1 j = start_distance c2 j"
proof -
  have "c1 ! 0 = c2 ! 0" by (rule nth_of_take_eq [OF assms]) simp
  moreover have "c1 ! j = c2 ! j" by (rule nth_of_take_eq [OF assms]) simp
  ultimately show ?thesis by (simp only: start_distance_def)
qed

lemma closes_at_prefix:
  "take (Suc j) c1 = take (Suc j) c2 \<Longrightarrow> closes_at E c1 j = closes_at E c2 j"
  using start_distance_prefix [of j c1 c2] by (simp add: closes_at_def)

lemma stepped_prefix:
  assumes "take (Suc j) c1 = take (Suc j) c2" and "1 \<le> j"
  shows "stepped E tp rp c1 j = stepped E tp rp c2 j"
proof -
  have "c1 ! j = c2 ! j" by (rule nth_of_take_eq [OF assms(1)]) simp
  moreover have "c1 ! (j - 1) = c2 ! (j - 1)" by (rule nth_of_take_eq [OF assms(1)]) simp
  ultimately show ?thesis by (simp only: stepped_def)
qed

lemma trace_loop_post:
  "length (fst st) = s \<Longrightarrow> 1 \<le> s \<Longrightarrow>
   trace_post E tp rp s (fst st) (fst (trace_loop E tp rp s st))"
proof (induction E tp rp s st rule: trace_loop.induct)
  case (1 E tp rp s st)
  define curve where "curve = fst st"
  define prev where "prev = curve ! (s - 1)"
  define m1 where "m1 = mark_box E (grid_down E prev) (snd st)"
  define test where "test = tp prev"
  define curve1 where "curve1 = curve @ [rp prev test]"
  from "1.prems" have len: "length curve = s" and s1: "1 \<le> s" by (simp_all add: curve_def)
  then have lastc: "last curve = prev"
    by (cases curve rule: rev_cases) (auto simp: prev_def nth_append)
  have ne: "curve \<noteq> []" using len s1 by auto
  show ?case
  proof (cases "outside_grid E (grid_down E prev)")
    case True
    then have "trace_loop E tp rp s st = st"
      by (subst trace_loop.simps) (simp add: Let_def curve_def prev_def)
    with True len lastc show ?thesis
      by (auto simp: trace_post_def curve_def)
  next
    case out1: False
    show ?thesis
    proof (cases "outside_grid E (grid_down E test)")
      case True
      with out1 have "trace_loop E tp rp s st = (curve, m1)"
        by (subst trace_loop.simps)
           (simp add: Let_def curve_def prev_def m1_def test_def)
      with True len lastc show ?thesis
        by (auto simp: trace_post_def curve_def test_def)
    next
      case out2: False
      have len1: "length curve1 = s + 1" by (simp add: curve1_def len)
      have tk1: "take s curve1 = curve" by (simp add: curve1_def len)
      have prev1: "curve1 ! (s - 1) = prev" using len s1 by (simp add: curve1_def nth_append prev_def)
      have new1: "curve1 ! s = rp prev test" using len by (simp add: curve1_def nth_append)
      from out1 out2 prev1 new1 have st1: "stepped E tp rp curve1 s"
        by (simp add: stepped_def test_def)
      show ?thesis
      proof (cases "(start_distance curve1 s < 3 * h E \<and> s > 10) \<or> s > 50000")
        case True
        with out1 out2 have "trace_loop E tp rp s st = (curve1, m1)"
          by (subst trace_loop.simps)
             (simp add: Let_def curve_def prev_def m1_def test_def curve1_def)
        moreover have "\<forall>j. s \<le> j \<and> j < length curve1 \<longrightarrow> stepped E tp rp curve1 j"
        proof (intro allI impI)
          fix j assume "s \<le> j \<and> j < length curve1"
          with len1 have "j = s" by simp
          with st1 show "stepped E tp rp curve1 j" by simp
        qed
        ultimately show ?thesis using True len1 tk1
          by (auto simp: trace_post_def curve_def closes_at_def)
      next
        case fin: False
        with out1 out2 have eq: "trace_loop E tp rp s st = trace_loop E tp rp (s + 1) (curve1, m1)"
          by (subst trace_loop.simps)
             (auto simp: Let_def curve_def prev_def m1_def test_def curve1_def)
        have ih: "trace_post E tp rp (s + 1) curve1 (fst (trace_loop E tp rp (s + 1) (curve1, m1)))"
          using "1.IH" [OF curve_def prev_def out1 m1_def test_def out2 curve1_def fin] len1
          by simp
        define res where "res = fst (trace_loop E tp rp (s + 1) (curve1, m1))"
        from ih have p: "s + 1 \<le> length res" "length res \<le> max (s + 1 + 1) 50002"
          "take (s + 1) res = curve1"
          "\<forall>j. s + 1 \<le> j \<and> j < length res - 1 \<longrightarrow> \<not> closes_at E res j"
          "(s + 1 < length res \<and> (closes_at E res (length res - 1) \<or> 50000 < length res - 1)) \<or>
           outside_grid E (grid_down E (last res)) \<or>
           outside_grid E (grid_down E (tp (last res)))"
          "\<forall>j. s + 1 \<le> j \<and> j < length res \<longrightarrow> stepped E tp rp res j"
          by (simp_all add: trace_post_def res_def)
        from fin have sle: "s \<le> 50000" by simp
        have "take s res = take s (take (s + 1) res)" by (simp add: min_def)
        with p(3) tk1 have tk: "take s res = curve" by simp
        have tks: "take (Suc s) res = take (Suc s) curve1"
          by (simp add: p(3) [simplified] len1)
        have "closes_at E res s = closes_at E curve1 s"
          by (rule closes_at_prefix) (rule tks)
        with fin have ns: "\<not> closes_at E res s" by (simp add: closes_at_def)
        have "stepped E tp rp res s = stepped E tp rp curve1 s"
          by (rule stepped_prefix) (rule tks, rule s1)
        with st1 have ss: "stepped E tp rp res s" by simp
        have nc: "\<forall>j. s \<le> j \<and> j < length res - 1 \<longrightarrow> \<not> closes_at E res j"
        proof (intro allI impI)
          fix j assume j: "s \<le> j \<and> j < length res - 1"
          show "\<not> closes_at E res j"
          proof (cases "j = s")
            case True with ns show ?thesis by simp
          next
            case False with j p(4) show ?thesis by simp
          qed
        qed
        have sp: "\<forall>j. s \<le> j \<and> j < length res \<longrightarrow> stepped E tp rp res j"
        proof (intro allI impI)
          fix j assume j: "s \<le> j \<and> j < length res"
          show "stepped E tp rp res j"
          proof (cases "j = s")
            case True with ss show ?thesis by simp
          next
            case False with j p(6) show ?thesis by simp
          qed
        qed
        from p(1) p(2) sle tk nc sp p(5) show ?thesis
          unfolding eq res_def [symmetric] trace_post_def curve_def [symmetric]
          by auto
      qed
    qed
  qed
qed


lemma grid_down_seed0: "grid_down config0 seed0 = (1, 1, 0)"
  by (simp add: grid_down_def config0_def seed0_def grid442_def c_trunc_def)

lemma outside_seed0: "\<not> outside_grid config0 (1, 1, 0)"
  by (simp add: outside_grid_def config0_def grid442_def)

lemma h_config0: "h config0 = 1"
  by (simp add: config0_def)

lemma trace_stay_curve:
  "fst (trace_curve config0 stay_trial stay_refine seed0 no_marks)
     = [seed0, seed0, seed0, seed0, seed0, seed0, seed0, seed0, seed0, seed0, seed0, seed0]"
  by (simp add: trace_curve_def trace_loop.simps Let_def stay_trial_def stay_refine_def
        grid_down_seed0 outside_seed0 start_distance_def h_config0)


lemma inside_seed_corner: "\<not> outside_grid config0 (grid_down config0 seed_corner)"
  by (simp add: grid_down_def outside_grid_def config0_def seed_corner_def grid442_def c_trunc_def)

lemma inside_far_point: "\<not> outside_grid config0 (grid_down config0 far_point)"
  by (simp add: grid_down_def outside_grid_def config0_def far_point_def grid442_def c_trunc_def)

lemma far_from_corner:
  assumes "c ! 0 = seed_corner" and "c ! s = far_point"
  shows "\<not> start_distance c s < 3 * h config0"
proof -
  have "(3::real) \<le> sqrt 36" by (rule real_le_rsqrt) simp
  with assms show ?thesis
    by (simp add: start_distance_def Let_def seed_corner_def far_point_def h_config0)
qed

lemma far_loop:
  "1 \<le> s \<Longrightarrow> s \<le> 50001 \<Longrightarrow>
   fst (trace_loop config0 far_trial stay_refine s (seed_corner # replicate (s - 1) far_point, m))
     = seed_corner # replicate 50001 far_point"
proof (induction "50001 - s" arbitrary: s m)
  case 0
  then have s: "s = 50001" by simp
  define curve where "curve = seed_corner # replicate (s - 1) far_point"
  have len: "length curve = s" using "0.prems" by (simp add: curve_def)
  have prev: "curve ! (s - 1) = far_point" using s by (simp add: curve_def)
  have "replicate 50000 far_point @ [far_point] = replicate (Suc 50000) far_point"
    by (simp only: replicate_append_same replicate.simps)
  moreover have "Suc 50000 = 50001" by simp
  ultimately have c1: "curve @ [far_point] = seed_corner # replicate 50001 far_point"
    unfolding curve_def s by simp
  have ins: "\<not> outside_grid config0 (grid_down config0 (curve ! (s - 1)))"
    unfolding prev by (rule inside_far_point)
  have gt: "50000 < s" using s by simp
  show ?case
    unfolding curve_def [symmetric] using ins gt
    by (subst trace_loop.simps)
       (simp add: Let_def inside_far_point far_trial_def stay_refine_def c1)
next
  case (Suc k)
  then have s: "1 \<le> s" "s \<le> 50000" by simp_all
  define curve where "curve = seed_corner # replicate (s - 1) far_point"
  have len: "length curve = s" using s by (simp add: curve_def)
  have prev: "curve ! (s - 1) = seed_corner \<or> curve ! (s - 1) = far_point"
    using s by (cases "s = 1") (simp_all add: curve_def nth_Cons')
  then have ins: "\<not> outside_grid config0 (grid_down config0 (curve ! (s - 1)))"
    using inside_seed_corner inside_far_point by auto
  have "replicate (s - 1) far_point @ [far_point] = replicate (Suc (s - 1)) far_point"
    by (simp add: replicate_append_same)
  with s have c1: "curve @ [far_point] = seed_corner # replicate (s + 1 - 1) far_point"
    by (simp add: curve_def)
  have "(curve @ [far_point]) ! 0 = seed_corner" by (simp add: curve_def)
  moreover have "(curve @ [far_point]) ! s = far_point" using len by (simp add: nth_append)
  ultimately have nf: "\<not> start_distance (curve @ [far_point]) s < 3 * h config0"
    by (rule far_from_corner)
  have "fst (trace_loop config0 far_trial stay_refine s (curve, m))
          = fst (trace_loop config0 far_trial stay_refine (s + 1)
                   (curve @ [far_point],
                    mark_box config0 (grid_down config0 (curve ! (s - 1))) m))"
    using s(2) ins nf
    by (subst trace_loop.simps)
       (simp add: Let_def inside_far_point far_trial_def stay_refine_def)
  also have "\<dots> = seed_corner # replicate 50001 far_point"
    unfolding c1 using Suc.hyps(2) s by (intro Suc.hyps(1)) simp_all
  finally show ?case unfolding curve_def .
qed

lemma trace_far_curve:
  "fst (trace_curve config0 far_trial stay_refine seed_corner no_marks)
     = seed_corner # replicate 50001 far_point"
  using far_loop [of 1 no_marks] by (simp add: trace_curve_def)

lemma trace_outside_curve:
  "fst (trace_curve config0 stay_trial stay_refine seed_outside no_marks) = [seed_outside]"
  by (simp add: trace_curve_def trace_loop.simps Let_def grid_down_def outside_grid_def
        config0_def seed_outside_def grid442_def c_trunc_def)

text \<open>
  Claim C6, as the code has it. Curve tracing returns for every seed, every grid field and
  every behaviour of the minimiser, with a curve of at most 50002 points that starts at
  the seed. The loop goes on from each point to the next only while the point and its
  trial point are inside the grid, and it stops at the first of these events: a new point
  of index \<open>s > 10\<close> lies within three grid spacings of the start point; the new point has
  the index 50001 (the test \<open>s>50000\<close>, the curve then has 50002 points); the current point
  or its trial point is outside the grid, and then no point is added. However the loop was
  left, the curve becomes the component \<open>c\<close> and \<open>c\<close> is increased.
\<close>

theorem trace_curve_stops:
  "(let res = fst (trace_curve E tp rp seed m) in
      1 \<le> length res \<and> length res \<le> 50002 \<and> res ! 0 = seed \<and>
      (\<forall>j. 1 \<le> j \<and> j < length res \<longrightarrow> stepped E tp rp res j) \<and>
      (\<forall>j. 1 \<le> j \<and> j < length res - 1 \<longrightarrow> \<not> closes_at E res j) \<and>
      ((2 \<le> length res \<and> (closes_at E res (length res - 1) \<or> length res = 50002)) \<or>
       outside_grid E (grid_down E (last res)) \<or>
       outside_grid E (grid_down E (tp (last res)))) \<and>
      extract_component E tp rp fc seed (c, knotcurves, m)
        = (c + 1, knotcurves @ [fc res], snd (trace_curve E tp rp seed m)))"
proof -
  define res where "res = fst (trace_curve E tp rp seed m)"
  have "trace_post E tp rp 1 (fst ([seed], m)) (fst (trace_loop E tp rp 1 ([seed], m)))"
    by (rule trace_loop_post) simp_all
  then have p: "trace_post E tp rp 1 [seed] res"
    by (simp add: res_def trace_curve_def)
  then have len: "1 \<le> length res" "length res \<le> 50002" and tk: "take 1 res = [seed]"
    by (simp_all add: trace_post_def)
  from tk len(1) have hd: "res ! 0 = seed"
    by (cases res) simp_all
  from p have mid: "\<forall>j. 1 \<le> j \<and> j < length res - 1 \<longrightarrow> \<not> closes_at E res j"
    by (simp add: trace_post_def)
  from p have stp: "\<forall>j. 1 \<le> j \<and> j < length res \<longrightarrow> stepped E tp rp res j"
    by (simp add: trace_post_def)
  from p len(2) have fin: "(2 \<le> length res \<and> (closes_at E res (length res - 1) \<or> length res = 50002)) \<or>
      outside_grid E (grid_down E (last res)) \<or> outside_grid E (grid_down E (tp (last res)))"
    by (auto simp: trace_post_def)
  have ec: "extract_component E tp rp fc seed (c, knotcurves, m)
              = (c + 1, knotcurves @ [fc res], snd (trace_curve E tp rp seed m))"
    by (simp add: extract_component_def Let_def res_def)
  from len hd stp mid fin ec show ?thesis unfolding Let_def res_def [symmetric] by blast
qed

theorem trace_curve_stops_witness:
  "length (fst (trace_curve config0 stay_trial stay_refine seed0 no_marks)) = 12 \<and>
   closes_at config0 (fst (trace_curve config0 stay_trial stay_refine seed0 no_marks)) 11 \<and>
   \<not> closes_at config0 (fst (trace_curve config0 stay_trial stay_refine seed0 no_marks)) 5 \<and>
   stepped config0 stay_trial stay_refine
     (fst (trace_curve config0 stay_trial stay_refine seed0 no_marks)) 5 \<and>
   fst (extract_component config0 stay_trial stay_refine keep_curve seed0 (0, [], no_marks)) = 1 \<and>
   fst (trace_curve config0 stay_trial stay_refine seed_outside no_marks) = [seed_outside] \<and>
   outside_grid config0 (grid_down config0 seed_outside)"
proof -
  note a = trace_curve_stops [of config0 stay_trial stay_refine seed0 no_marks keep_curve 0 "[]"]
  note b = trace_curve_stops [of config0 stay_trial stay_refine seed_outside no_marks keep_curve 0 "[]"]
  have o: "outside_grid config0 (grid_down config0 seed_outside)"
    by (simp add: grid_down_def outside_grid_def config0_def seed_outside_def grid442_def
          c_trunc_def)
  from a b o show ?thesis
    by (simp add: trace_stay_curve trace_outside_curve closes_at_def start_distance_def
          h_config0 Let_def)
qed

text \<open>
  The claim as the specification states it differs in three places. With every traced
  point equal to the start point, the point of index 10 is within three grid spacings of
  the start and the tracing goes on to the point of index 11, so ten traced points are not
  enough. With every traced point at \<open>(2, 2, 1)\<close>, six grid spacings from the seed
  \<open>(-2, -2, -1)\<close>, the curve never closes and the guard ends it: it has 50002 points, not
  50001, and it is stored as component \<open>0\<close> and counted like a closed curve; nothing marks
  it as abandoned or invalid.
\<close>

theorem trace_curve_guard_counterexample:
  "start_distance (fst (trace_curve config0 stay_trial stay_refine seed0 no_marks)) 10
     < 3 * h config0 \<and>
   length (fst (trace_curve config0 stay_trial stay_refine seed0 no_marks)) = 12 \<and>
   fst (trace_curve config0 far_trial stay_refine seed_corner no_marks)
     = seed_corner # replicate 50001 far_point \<and>
   length (fst (trace_curve config0 far_trial stay_refine seed_corner no_marks)) = 50002 \<and>
   \<not> closes_at config0 (fst (trace_curve config0 far_trial stay_refine seed_corner no_marks)) 50001 \<and>
   fst (extract_component config0 far_trial stay_refine keep_curve seed_corner (0, [], no_marks)) = 1 \<and>
   fst (snd (extract_component config0 far_trial stay_refine keep_curve seed_corner (0, [], no_marks)))
     = [seed_corner # replicate 50001 far_point]"
proof -
  have "\<not> closes_at config0 (seed_corner # replicate 50001 far_point) 50001"
    unfolding closes_at_def using far_from_corner [of "seed_corner # replicate 50001 far_point" 50001]
    by simp
  then show ?thesis
    by (simp add: trace_stay_curve trace_far_curve start_distance_def h_config0
          extract_component_def keep_curve_def Let_def)
qed

section \<open>Time stepping\<close>

lemma cells_product:
  "cells g = List.product [0..Nx g - 1] (List.product [0..Ny g - 1] [0..Nz g - 1])"
  by (simp add: cells_def product_concat_map map_concat comp_def)

lemma distinct_cells: "distinct (cells g)"
  by (simp add: cells_product distinct_product)

lemma flat_index_unique:
  fixes a b k l n :: int
  assumes "a * n + k = b * n + l" and "0 \<le> k" "k < n" "0 \<le> l" "l < n"
  shows "a = b \<and> k = l"
proof -
  have "(a * n + k) div n = a" using assms(2,3) by simp
  moreover have "(b * n + l) div n = b" using assms(4,5) by simp
  ultimately have "a = b" using assms(1) by simp
  with assms(1) show ?thesis by simp
qed

lemma pt_inj:
  assumes "in_grid g (i, j, k)" and "in_grid g (i', j', k')"
    and "pt g i j k = pt g i' j' k'"
  shows "(i, j, k) = (i', j', k')"
proof -
  from assms(3) have "(i * Ny g + j) * Nz g + k = (i' * Ny g + j') * Nz g + k'"
    by (simp add: pt_def algebra_simps)
  with assms(1,2) have 1: "i * Ny g + j = i' * Ny g + j'" and 2: "k = k'"
    using flat_index_unique [of "i * Ny g + j" "Nz g" k "i' * Ny g + j'" k']
    by (simp_all add: in_grid_def)
  from 1 assms(1,2) have "i = i' \<and> j = j'"
    using flat_index_unique [of i "Ny g" j i' j'] by (simp add: in_grid_def)
  with 2 show ?thesis by simp
qed


lemma ckey_inj:
  assumes "in_grid g c" and "in_grid g c'" and "ckey g c = ckey g c'"
  shows "c = c'"
proof -
  obtain i j k where c: "c = (i, j, k)" by (cases c)
  obtain i' j' k' where c': "c' = (i', j', k')" by (cases c')
  from assms(3) have "pt g i j k = pt g i' j' k'" by (simp add: c c' ckey_def)
  with assms(1,2) show ?thesis unfolding c c' by (rule pt_inj)
qed

lemma distinct_keys: "distinct (map (ckey g) (cells g))"
proof -
  have "inj_on (ckey g) (set (cells g))"
  proof (rule inj_onI)
    fix c c' assume a: "c \<in> set (cells g)" "c' \<in> set (cells g)" "ckey g c = ckey g c'"
    from a(1,2) have "in_grid g c" "in_grid g c'" by (simp_all add: set_cells)
    then show "c = c'" using a(3) by (rule ckey_inj)
  qed
  then show ?thesis by (simp add: distinct_map distinct_cells)
qed

lemma fold_untouched:
  assumes A: "\<And>c s. get (f c s) = (get s)(key c := val c s)"
  shows "n \<notin> key ` set cs \<Longrightarrow> get (fold f cs s) n = get s n"
  by (induction cs arbitrary: s) (auto simp: A)

lemma fold_pointwise:
  assumes A: "\<And>c s. get (f c s) = (get s)(key c := val c s)"
    and B: "\<And>c c0 s. key c \<noteq> key c0 \<Longrightarrow> val c0 (f c s) = val c0 s"
  shows "distinct (map key cs) \<Longrightarrow> c0 \<in> set cs \<Longrightarrow> get (fold f cs s) (key c0) = val c0 s"
proof (induction cs arbitrary: s)
  case Nil
  then show ?case by simp
next
  case (Cons c cs)
  from Cons.prems have d: "distinct (map key cs)" and nk: "key c \<notin> key ` set cs" by simp_all
  show ?case
  proof (cases "c0 \<in> set cs")
    case True
    with nk have ne: "key c \<noteq> key c0" by auto
    from Cons.IH [OF d True, of "f c s"] B [OF ne, of s] show ?thesis by simp
  next
    case False
    with Cons.prems(2) have "c0 = c" by simp
    with fold_untouched [of get f key val "key c" cs "f c s", OF A nk] A [of c s]
    show ?thesis by simp
  qed
qed

lemma fold_unchanged:
  assumes "\<And>c s. get (f c s) = get s"
  shows "get (fold f cs s) = get s"
  by (induction cs arbitrary: s) (simp_all add: assms)


lemma on_cells_ckey: "on_cells g a c = a (ckey g c)"
  by (cases c) (simp add: on_cells_def ckey_def)

lemma rk_init_cell_fields:
  "uold (rk_init_cell E c s) = (uold s)(ckey (cgrid E) c := u s (ckey (cgrid E) c))"
  "vold (rk_init_cell E c s) = (vold s)(ckey (cgrid E) c := v s (ckey (cgrid E) c))"
  "kut (rk_init_cell E c s) = (kut s)(ckey (cgrid E) c := 0)"
  "kvt (rk_init_cell E c s) = (kvt s)(ckey (cgrid E) c := 0)"
  "u (rk_init_cell E c s) = u s" "v (rk_init_cell E c s) = v s"
  by (cases c; simp add: rk_init_cell_def ckey_def Let_def)+

lemma rk_deriv_cell_fields:
  "ku (rk_deriv_cell E c s)
     = (ku s)(ckey (cgrid E) c := rhs_u E (on_cells (cgrid E) (u s)) (on_cells (cgrid E) (v s)) c)"
  "kv (rk_deriv_cell E c s)
     = (kv s)(ckey (cgrid E) c := rhs_v E (on_cells (cgrid E) (u s)) (on_cells (cgrid E) (v s)) c)"
  "u (rk_deriv_cell E c s) = u s" "v (rk_deriv_cell E c s) = v s"
  "uold (rk_deriv_cell E c s) = uold s" "vold (rk_deriv_cell E c s) = vold s"
  "kut (rk_deriv_cell E c s) = kut s" "kvt (rk_deriv_cell E c s) = kvt s"
  by (cases c; simp add: rk_deriv_cell_def ckey_def Let_def rhs_u_def rhs_v_def laplacian7_def
        on_cells_def oneoverhsq_def oneoverepsilon_def power3_eq_cube)+

lemma uv_add_cell_fields:
  "u (uv_add_cell E inc coeff c s)
     = (u s)(ckey (cgrid E) c := uold s (ckey (cgrid E) c) + dtime E * inc * ku s (ckey (cgrid E) c))"
  "v (uv_add_cell E inc coeff c s)
     = (v s)(ckey (cgrid E) c := vold s (ckey (cgrid E) c) + dtime E * inc * kv s (ckey (cgrid E) c))"
  "kut (uv_add_cell E inc coeff c s)
     = (kut s)(ckey (cgrid E) c := kut s (ckey (cgrid E) c) + coeff * ku s (ckey (cgrid E) c))"
  "kvt (uv_add_cell E inc coeff c s)
     = (kvt s)(ckey (cgrid E) c := kvt s (ckey (cgrid E) c) + coeff * kv s (ckey (cgrid E) c))"
  "ku (uv_add_cell E inc coeff c s) = ku s" "kv (uv_add_cell E inc coeff c s) = kv s"
  "uold (uv_add_cell E inc coeff c s) = uold s" "vold (uv_add_cell E inc coeff c s) = vold s"
  by (cases c; simp add: uv_add_cell_def ckey_def Let_def)+

lemma rk_final_cell_fields:
  "u (rk_final_cell E c s)
     = (u s)(ckey (cgrid E) c := uold s (ckey (cgrid E) c)
                + dtime E * sixth * (kut s (ckey (cgrid E) c) + ku s (ckey (cgrid E) c)))"
  "v (rk_final_cell E c s)
     = (v s)(ckey (cgrid E) c := vold s (ckey (cgrid E) c)
                + dtime E * sixth * (kvt s (ckey (cgrid E) c) + kv s (ckey (cgrid E) c)))"
  "uold (rk_final_cell E c s) = uold s" "vold (rk_final_cell E c s) = vold s"
  "kut (rk_final_cell E c s) = kut s" "kvt (rk_final_cell E c s) = kvt s"
  "ku (rk_final_cell E c s) = ku s" "kv (rk_final_cell E c s) = kv s"
  by (cases c; simp add: rk_final_cell_def ckey_def Let_def)+


lemma neighbours_in_grid:
  assumes nb: "neighbours_in_range E" and c: "in_grid (cgrid E) (i, j, k)"
  shows "in_grid (cgrid E) (incw E i 1 (Nx (cgrid E)), j, k)"
    and "in_grid (cgrid E) (incw E i (- 1) (Nx (cgrid E)), j, k)"
    and "in_grid (cgrid E) (i, incw E j 1 (Ny (cgrid E)), k)"
    and "in_grid (cgrid E) (i, incw E j (- 1) (Ny (cgrid E)), k)"
    and "in_grid (cgrid E)
           (i, j, if periodic E then incp E k 1 (Nz (cgrid E)) else incw E k 1 (Nz (cgrid E)))"
    and "in_grid (cgrid E)
           (i, j, if periodic E then incp E k (- 1) (Nz (cgrid E))
                  else incw E k (- 1) (Nz (cgrid E)))"
proof -
  from c have i: "i \<in> {0..Nx (cgrid E) - 1}" and j: "j \<in> {0..Ny (cgrid E) - 1}"
    and k: "k \<in> {0..Nz (cgrid E) - 1}"
    by (simp_all add: in_grid_def)
  from nb have r: "\<And>N a d. N \<in> {Nx (cgrid E), Ny (cgrid E), Nz (cgrid E)} \<Longrightarrow> a \<in> {0..N - 1}
      \<Longrightarrow> d \<in> {1, - 1} \<Longrightarrow> 0 \<le> incw E a d N \<and> incw E a d N < N \<and>
        (periodic E \<longrightarrow> 0 \<le> incp E a d N \<and> incp E a d N < N)"
    unfolding neighbours_in_range_def by blast
  from r [of "Nx (cgrid E)" i 1] r [of "Nx (cgrid E)" i "- 1"] i c
  show "in_grid (cgrid E) (incw E i 1 (Nx (cgrid E)), j, k)"
    and "in_grid (cgrid E) (incw E i (- 1) (Nx (cgrid E)), j, k)"
    by (simp_all add: in_grid_def)
  from r [of "Ny (cgrid E)" j 1] r [of "Ny (cgrid E)" j "- 1"] j c
  show "in_grid (cgrid E) (i, incw E j 1 (Ny (cgrid E)), k)"
    and "in_grid (cgrid E) (i, incw E j (- 1) (Ny (cgrid E)), k)"
    by (simp_all add: in_grid_def)
  from r [of "Nz (cgrid E)" k 1] r [of "Nz (cgrid E)" k "- 1"] k c
  show "in_grid (cgrid E)
           (i, j, if periodic E then incp E k 1 (Nz (cgrid E)) else incw E k 1 (Nz (cgrid E)))"
    and "in_grid (cgrid E)
           (i, j, if periodic E then incp E k (- 1) (Nz (cgrid E))
                  else incw E k (- 1) (Nz (cgrid E)))"
    by (simp_all add: in_grid_def)
qed

lemma rhs_cong:
  assumes nb: "neighbours_in_range E" and c: "in_grid (cgrid E) c"
    and U: "\<And>c. in_grid (cgrid E) c \<Longrightarrow> U c = U' c"
    and V: "\<And>c. in_grid (cgrid E) c \<Longrightarrow> V c = V' c"
  shows "rhs_u E U V c = rhs_u E U' V' c" and "rhs_v E U V c = rhs_v E U' V' c"
proof -
  obtain i j k where cc: "c = (i, j, k)" by (cases c)
  note n = neighbours_in_grid [OF nb c [unfolded cc]]
  have "laplacian7 E U c = laplacian7 E U' c"
    unfolding cc laplacian7_def Let_def prod.case
    using U [OF n(1)] U [OF n(2)] U [OF n(3)] U [OF n(4)] U [OF n(5)] U [OF n(6)]
      U [OF c [unfolded cc]]
    by (simp only:)
  then show "rhs_u E U V c = rhs_u E U' V' c"
    by (simp only: rhs_u_def U [OF c] V [OF c])
  show "rhs_v E U V c = rhs_v E U' V' c"
    by (simp only: rhs_v_def U [OF c] V [OF c])
qed


lemma deriv_loop:
  assumes nb: "neighbours_in_range E" and c: "in_grid (cgrid E) c"
    and U: "\<And>c. in_grid (cgrid E) c \<Longrightarrow> u s (ckey (cgrid E) c) = Uc c"
    and V: "\<And>c. in_grid (cgrid E) c \<Longrightarrow> v s (ckey (cgrid E) c) = Vc c"
  shows "ku (fold (rk_deriv_cell E) (cells (cgrid E)) s) (ckey (cgrid E) c) = rhs_u E Uc Vc c"
    and "kv (fold (rk_deriv_cell E) (cells (cgrid E)) s) (ckey (cgrid E) c) = rhs_v E Uc Vc c"
proof -
  let ?g = "cgrid E"
  from c have mem: "c \<in> set (cells ?g)" by (simp add: set_cells)
  have "ku (fold (rk_deriv_cell E) (cells ?g) s) (ckey ?g c)
          = rhs_u E (on_cells ?g (u s)) (on_cells ?g (v s)) c"
    by (rule fold_pointwise [where get = ku and f = "rk_deriv_cell E" and key = "ckey ?g"
          and val = "\<lambda>c s. rhs_u E (on_cells ?g (u s)) (on_cells ?g (v s)) c",
          OF _ _ distinct_keys mem])
       (simp_all add: rk_deriv_cell_fields)
  also have "\<dots> = rhs_u E Uc Vc c"
    by (rule rhs_cong(1) [OF nb c]) (simp_all add: on_cells_ckey U V)
  finally show "ku (fold (rk_deriv_cell E) (cells ?g) s) (ckey ?g c) = rhs_u E Uc Vc c" .
  have "kv (fold (rk_deriv_cell E) (cells ?g) s) (ckey ?g c)
          = rhs_v E (on_cells ?g (u s)) (on_cells ?g (v s)) c"
    by (rule fold_pointwise [where get = kv and f = "rk_deriv_cell E" and key = "ckey ?g"
          and val = "\<lambda>c s. rhs_v E (on_cells ?g (u s)) (on_cells ?g (v s)) c",
          OF _ _ distinct_keys mem])
       (simp_all add: rk_deriv_cell_fields)
  also have "\<dots> = rhs_v E Uc Vc c"
    by (rule rhs_cong(2) [OF nb c]) (simp_all add: on_cells_ckey U V)
  finally show "kv (fold (rk_deriv_cell E) (cells ?g) s) (ckey ?g c) = rhs_v E Uc Vc c" .
qed

lemma deriv_loop_frame:
  "u (fold (rk_deriv_cell E) cs s) = u s" "v (fold (rk_deriv_cell E) cs s) = v s"
  "uold (fold (rk_deriv_cell E) cs s) = uold s" "vold (fold (rk_deriv_cell E) cs s) = vold s"
  "kut (fold (rk_deriv_cell E) cs s) = kut s" "kvt (fold (rk_deriv_cell E) cs s) = kvt s"
  by (rule fold_unchanged, simp add: rk_deriv_cell_fields)+

lemma uv_add_loop:
  assumes c: "in_grid (cgrid E) c"
  shows "u (uv_add E inc coeff s) (ckey (cgrid E) c)
           = uold s (ckey (cgrid E) c) + dtime E * inc * ku s (ckey (cgrid E) c)"
    and "v (uv_add E inc coeff s) (ckey (cgrid E) c)
           = vold s (ckey (cgrid E) c) + dtime E * inc * kv s (ckey (cgrid E) c)"
    and "kut (uv_add E inc coeff s) (ckey (cgrid E) c)
           = kut s (ckey (cgrid E) c) + coeff * ku s (ckey (cgrid E) c)"
    and "kvt (uv_add E inc coeff s) (ckey (cgrid E) c)
           = kvt s (ckey (cgrid E) c) + coeff * kv s (ckey (cgrid E) c)"
proof -
  let ?g = "cgrid E"
  from c have mem: "c \<in> set (cells ?g)" by (simp add: set_cells)
  show "u (uv_add E inc coeff s) (ckey ?g c) = uold s (ckey ?g c) + dtime E * inc * ku s (ckey ?g c)"
    unfolding uv_add_def
    by (rule fold_pointwise [where get = u and f = "uv_add_cell E inc coeff" and key = "ckey ?g"
          and val = "\<lambda>c s. uold s (ckey ?g c) + dtime E * inc * ku s (ckey ?g c)",
          OF _ _ distinct_keys mem])
       (simp_all add: uv_add_cell_fields)
  show "v (uv_add E inc coeff s) (ckey ?g c) = vold s (ckey ?g c) + dtime E * inc * kv s (ckey ?g c)"
    unfolding uv_add_def
    by (rule fold_pointwise [where get = v and f = "uv_add_cell E inc coeff" and key = "ckey ?g"
          and val = "\<lambda>c s. vold s (ckey ?g c) + dtime E * inc * kv s (ckey ?g c)",
          OF _ _ distinct_keys mem])
       (simp_all add: uv_add_cell_fields)
  show "kut (uv_add E inc coeff s) (ckey ?g c) = kut s (ckey ?g c) + coeff * ku s (ckey ?g c)"
    unfolding uv_add_def
    by (rule fold_pointwise [where get = kut and f = "uv_add_cell E inc coeff" and key = "ckey ?g"
          and val = "\<lambda>c s. kut s (ckey ?g c) + coeff * ku s (ckey ?g c)",
          OF _ _ distinct_keys mem])
       (simp_all add: uv_add_cell_fields)
  show "kvt (uv_add E inc coeff s) (ckey ?g c) = kvt s (ckey ?g c) + coeff * kv s (ckey ?g c)"
    unfolding uv_add_def
    by (rule fold_pointwise [where get = kvt and f = "uv_add_cell E inc coeff" and key = "ckey ?g"
          and val = "\<lambda>c s. kvt s (ckey ?g c) + coeff * kv s (ckey ?g c)",
          OF _ _ distinct_keys mem])
       (simp_all add: uv_add_cell_fields)
qed

lemma uv_add_frame:
  "uold (uv_add E inc coeff s) = uold s" "vold (uv_add E inc coeff s) = vold s"
  unfolding uv_add_def by (rule fold_unchanged, simp add: uv_add_cell_fields)+

lemma rk_stage_rel:
  assumes nb: "neighbours_in_range E"
    and rel: "rk_rel (cgrid E) s U0 V0 Uc Vc KU KV"
  shows "rk_rel (cgrid E) (uv_add E inc coeff (fold (rk_deriv_cell E) (cells (cgrid E)) s))
           U0 V0
           (\<lambda>c. U0 c + dtime E * inc * rhs_u E Uc Vc c)
           (\<lambda>c. V0 c + dtime E * inc * rhs_v E Uc Vc c)
           (\<lambda>c. KU c + coeff * rhs_u E Uc Vc c)
           (\<lambda>c. KV c + coeff * rhs_v E Uc Vc c)"
proof -
  from rel have U: "\<And>c. in_grid (cgrid E) c \<Longrightarrow> u s (ckey (cgrid E) c) = Uc c"
    and V: "\<And>c. in_grid (cgrid E) c \<Longrightarrow> v s (ckey (cgrid E) c) = Vc c"
    unfolding rk_rel_def by blast+
  show ?thesis
    unfolding rk_rel_def
  proof (intro allI impI)
    fix c assume c: "in_grid (cgrid E) c"
    from rel c have r: "uold s (ckey (cgrid E) c) = U0 c" "vold s (ckey (cgrid E) c) = V0 c"
      "kut s (ckey (cgrid E) c) = KU c" "kvt s (ckey (cgrid E) c) = KV c"
      unfolding rk_rel_def by blast+
    show "uold (uv_add E inc coeff (fold (rk_deriv_cell E) (cells (cgrid E)) s)) (ckey (cgrid E) c) = U0 c \<and>
          vold (uv_add E inc coeff (fold (rk_deriv_cell E) (cells (cgrid E)) s)) (ckey (cgrid E) c) = V0 c \<and>
          u (uv_add E inc coeff (fold (rk_deriv_cell E) (cells (cgrid E)) s)) (ckey (cgrid E) c)
            = U0 c + dtime E * inc * rhs_u E Uc Vc c \<and>
          v (uv_add E inc coeff (fold (rk_deriv_cell E) (cells (cgrid E)) s)) (ckey (cgrid E) c)
            = V0 c + dtime E * inc * rhs_v E Uc Vc c \<and>
          kut (uv_add E inc coeff (fold (rk_deriv_cell E) (cells (cgrid E)) s)) (ckey (cgrid E) c)
            = KU c + coeff * rhs_u E Uc Vc c \<and>
          kvt (uv_add E inc coeff (fold (rk_deriv_cell E) (cells (cgrid E)) s)) (ckey (cgrid E) c)
            = KV c + coeff * rhs_v E Uc Vc c"
      by (simp add: uv_add_loop [OF c] uv_add_frame deriv_loop_frame
            deriv_loop [OF nb c U V] r)
  qed
qed

lemma rk_init_rel:
  "rk_rel (cgrid E) (fold (rk_init_cell E) (cells (cgrid E)) st)
     (on_cells (cgrid E) (u st)) (on_cells (cgrid E) (v st))
     (on_cells (cgrid E) (u st)) (on_cells (cgrid E) (v st)) (\<lambda>c. 0) (\<lambda>c. 0)"
  unfolding rk_rel_def
proof (intro allI impI)
  let ?g = "cgrid E"
  let ?s = "fold (rk_init_cell E) (cells ?g) st"
  fix c assume c: "in_grid ?g c"
  then have mem: "c \<in> set (cells ?g)" by (simp add: set_cells)
  have uu: "u ?s = u st" and vv: "v ?s = v st"
    by (rule fold_unchanged, simp add: rk_init_cell_fields)+
  have 1: "uold ?s (ckey ?g c) = u st (ckey ?g c)"
    by (rule fold_pointwise [where get = uold and f = "rk_init_cell E" and key = "ckey ?g"
          and val = "\<lambda>c s. u s (ckey ?g c)", OF _ _ distinct_keys mem])
       (simp_all add: rk_init_cell_fields)
  have 2: "vold ?s (ckey ?g c) = v st (ckey ?g c)"
    by (rule fold_pointwise [where get = vold and f = "rk_init_cell E" and key = "ckey ?g"
          and val = "\<lambda>c s. v s (ckey ?g c)", OF _ _ distinct_keys mem])
       (simp_all add: rk_init_cell_fields)
  have 3: "kut ?s (ckey ?g c) = 0"
    by (rule fold_pointwise [where get = kut and f = "rk_init_cell E" and key = "ckey ?g"
          and val = "\<lambda>c s. 0", OF _ _ distinct_keys mem])
       (simp_all add: rk_init_cell_fields)
  have 4: "kvt ?s (ckey ?g c) = 0"
    by (rule fold_pointwise [where get = kvt and f = "rk_init_cell E" and key = "ckey ?g"
          and val = "\<lambda>c s. 0", OF _ _ distinct_keys mem])
       (simp_all add: rk_init_cell_fields)
  show "uold ?s (ckey ?g c) = on_cells ?g (u st) c \<and> vold ?s (ckey ?g c) = on_cells ?g (v st) c \<and>
        u ?s (ckey ?g c) = on_cells ?g (u st) c \<and> v ?s (ckey ?g c) = on_cells ?g (v st) c \<and>
        kut ?s (ckey ?g c) = 0 \<and> kvt ?s (ckey ?g c) = 0"
    by (simp add: 1 2 3 4 uu vv on_cells_ckey)
qed

lemma rk_final_loop:
  assumes nb: "neighbours_in_range E" and c: "in_grid (cgrid E) c"
    and rel: "rk_rel (cgrid E) s U0 V0 Uc Vc KU KV"
  shows "u (fold (rk_final_cell E) (cells (cgrid E)) (fold (rk_deriv_cell E) (cells (cgrid E)) s))
           (ckey (cgrid E) c) = U0 c + dtime E * sixth * (KU c + rhs_u E Uc Vc c)"
    and "v (fold (rk_final_cell E) (cells (cgrid E)) (fold (rk_deriv_cell E) (cells (cgrid E)) s))
           (ckey (cgrid E) c) = V0 c + dtime E * sixth * (KV c + rhs_v E Uc Vc c)"
proof -
  let ?g = "cgrid E"
  let ?d = "fold (rk_deriv_cell E) (cells ?g) s"
  from c have mem: "c \<in> set (cells ?g)" by (simp add: set_cells)
  from rel have U: "\<And>c. in_grid ?g c \<Longrightarrow> u s (ckey ?g c) = Uc c"
    and V: "\<And>c. in_grid ?g c \<Longrightarrow> v s (ckey ?g c) = Vc c"
    unfolding rk_rel_def by blast+
  from rel c have r: "uold s (ckey ?g c) = U0 c" "vold s (ckey ?g c) = V0 c"
      "kut s (ckey ?g c) = KU c" "kvt s (ckey ?g c) = KV c"
    unfolding rk_rel_def by blast+
  have "u (fold (rk_final_cell E) (cells ?g) ?d) (ckey ?g c)
          = uold ?d (ckey ?g c) + dtime E * sixth * (kut ?d (ckey ?g c) + ku ?d (ckey ?g c))"
    by (rule fold_pointwise [where get = u and f = "rk_final_cell E" and key = "ckey ?g"
          and val = "\<lambda>c s. uold s (ckey ?g c) + dtime E * sixth * (kut s (ckey ?g c) + ku s (ckey ?g c))",
          OF _ _ distinct_keys mem])
       (simp_all add: rk_final_cell_fields)
  then show "u (fold (rk_final_cell E) (cells ?g) ?d) (ckey ?g c)
               = U0 c + dtime E * sixth * (KU c + rhs_u E Uc Vc c)"
    by (simp add: deriv_loop_frame deriv_loop [OF nb c U V] r)
  have "v (fold (rk_final_cell E) (cells ?g) ?d) (ckey ?g c)
          = vold ?d (ckey ?g c) + dtime E * sixth * (kvt ?d (ckey ?g c) + kv ?d (ckey ?g c))"
    by (rule fold_pointwise [where get = v and f = "rk_final_cell E" and key = "ckey ?g"
          and val = "\<lambda>c s. vold s (ckey ?g c) + dtime E * sixth * (kvt s (ckey ?g c) + kv s (ckey ?g c))",
          OF _ _ distinct_keys mem])
       (simp_all add: rk_final_cell_fields)
  then show "v (fold (rk_final_cell E) (cells ?g) ?d) (ckey ?g c)
               = V0 c + dtime E * sixth * (KV c + rhs_v E Uc Vc c)"
    by (simp add: deriv_loop_frame deriv_loop [OF nb c U V] r)
qed

text \<open>
  Claim C2. One call of \<open>uv_update\<close> takes every cell of the grid from its old state to
  the state of the classical four-stage scheme: with \<open>k1\<close> to \<open>k4\<close> the reaction terms plus
  the 7-point Laplacian at the old state, at old state plus \<open>dt/2\<close> times \<open>k1\<close>, at old
  state plus \<open>dt/2\<close> times \<open>k2\<close> and at old state plus \<open>dt\<close> times \<open>k3\<close>, the new state is
  the old state plus \<open>dt/6\<close> times \<open>k1 + 2 k2 + 2 k3 + k4\<close>, for both fields. The
  neighbour functions have to return indices of the axis they are asked about.
\<close>

theorem uv_update_is_rk4:
  assumes nb: "neighbours_in_range E" and c: "in_grid (cgrid E) (i, j, k)"
  shows "u (uv_update E st) (pt (cgrid E) i j k)
           = fst (rk4_classical E (on_cells (cgrid E) (u st)) (on_cells (cgrid E) (v st))) (i, j, k) \<and>
         v (uv_update E st) (pt (cgrid E) i j k)
           = snd (rk4_classical E (on_cells (cgrid E) (u st)) (on_cells (cgrid E) (v st))) (i, j, k)"
proof -
  let ?g = "cgrid E"
  define U where "U = on_cells ?g (u st)"
  define V where "V = on_cells ?g (v st)"
  define k1u where "k1u = rhs_u E U V"
  define k1v where "k1v = rhs_v E U V"
  define U1 where "U1 = (\<lambda>c. U c + dtime E / 2 * k1u c)"
  define V1 where "V1 = (\<lambda>c. V c + dtime E / 2 * k1v c)"
  define k2u where "k2u = rhs_u E U1 V1"
  define k2v where "k2v = rhs_v E U1 V1"
  define U2 where "U2 = (\<lambda>c. U c + dtime E / 2 * k2u c)"
  define V2 where "V2 = (\<lambda>c. V c + dtime E / 2 * k2v c)"
  define k3u where "k3u = rhs_u E U2 V2"
  define k3v where "k3v = rhs_v E U2 V2"
  define U3 where "U3 = (\<lambda>c. U c + dtime E * k3u c)"
  define V3 where "V3 = (\<lambda>c. V c + dtime E * k3v c)"
  define k4u where "k4u = rhs_u E U3 V3"
  define k4v where "k4v = rhs_v E U3 V3"
  define s0 where "s0 = fold (rk_init_cell E) (cells ?g) st"
  define s1 where "s1 = uv_add E 0.5 1 (fold (rk_deriv_cell E) (cells ?g) s0)"
  define s2 where "s2 = uv_add E 0.5 2 (fold (rk_deriv_cell E) (cells ?g) s1)"
  define s3 where "s3 = uv_add E 1 2 (fold (rk_deriv_cell E) (cells ?g) s2)"
  have upd: "uv_update E st
      = fold (rk_final_cell E) (cells ?g) (fold (rk_deriv_cell E) (cells ?g) s3)"
    by (simp add: uv_update_def rk_stage_def s0_def s1_def s2_def s3_def)
  have r0: "rk_rel ?g s0 U V U V (\<lambda>c. 0) (\<lambda>c. 0)"
    unfolding s0_def U_def V_def by (rule rk_init_rel)
  have r1: "rk_rel ?g s1 U V U1 V1 k1u k1v"
    using rk_stage_rel [OF nb r0, where inc = "0.5" and coeff = 1]
    by (simp add: s1_def U1_def V1_def k1u_def k1v_def)
  have r2: "rk_rel ?g s2 U V U2 V2 (\<lambda>c. k1u c + 2 * k2u c) (\<lambda>c. k1v c + 2 * k2v c)"
    using rk_stage_rel [OF nb r1, where inc = "0.5" and coeff = 2]
    by (simp add: s2_def U2_def V2_def k2u_def k2v_def)
  have r3: "rk_rel ?g s3 U V U3 V3 (\<lambda>c. k1u c + 2 * k2u c + 2 * k3u c)
              (\<lambda>c. k1v c + 2 * k2v c + 2 * k3v c)"
    using rk_stage_rel [OF nb r2, where inc = 1 and coeff = 2]
    by (simp add: s3_def U3_def V3_def k3u_def k3v_def)
  note fin = rk_final_loop [OF nb c r3]
  have cl: "rk4_classical E U V
      = (\<lambda>c. U c + dtime E / 6 * (k1u c + 2 * k2u c + 2 * k3u c + k4u c),
         \<lambda>c. V c + dtime E / 6 * (k1v c + 2 * k2v c + 2 * k3v c + k4v c))"
    unfolding rk4_classical_def Let_def k4u_def k4v_def U3_def V3_def k3u_def k3v_def
      U2_def V2_def k2u_def k2v_def U1_def V1_def k1u_def k1v_def ..
  have key: "ckey ?g (i, j, k) = pt ?g i j k" by (simp add: ckey_def)
  from fin show ?thesis
    unfolding upd [symmetric] key U_def [symmetric] V_def [symmetric] cl
    by (simp add: sixth_def k4u_def k4v_def)
qed

theorem uv_update_is_rk4_witness:
  "neighbours_in_range config0 \<and> in_grid (cgrid config0) (1, 2, 1) \<and>
   u (uv_update config0 rk_state0) (pt (cgrid config0) 1 2 1)
     = fst (rk4_classical config0 (on_cells (cgrid config0) (u rk_state0))
              (on_cells (cgrid config0) (v rk_state0))) (1, 2, 1) \<and>
   v (uv_update config0 rk_state0) (pt (cgrid config0) 1 2 1)
     = snd (rk4_classical config0 (on_cells (cgrid config0) (u rk_state0))
              (on_cells (cgrid config0) (v rk_state0))) (1, 2, 1)"
proof -
  have nb: "neighbours_in_range config0"
    by (auto simp: neighbours_in_range_def config0_def grid442_def incw_clamp_def)
  have c: "in_grid (cgrid config0) (1, 2, 1)"
    by (simp add: in_grid_def config0_def grid442_def)
  from uv_update_is_rk4 [OF nb c, of rk_state0] nb c show ?thesis by simp
qed

section \<open>Phase wrapping and the scalar potential\<close>

lemma wrap_above_le: "wrap_above p \<le> pi"
  by (induction p rule: wrap_above.induct) (subst wrap_above.simps, simp)

lemma wrap_above_ge: "- pi \<le> p \<Longrightarrow> - pi \<le> wrap_above p"
proof (induction p rule: wrap_above.induct)
  case (1 p)
  show ?case
  proof (cases "p > pi")
    case True
    then have "- pi \<le> p - 2 * pi" by simp
    with "1.IH" [OF True] True show ?thesis by (subst wrap_above.simps) simp
  next
    case False
    with "1.prems" show ?thesis by (subst wrap_above.simps) simp
  qed
qed

lemma wrap_above_id: "p \<le> pi \<Longrightarrow> wrap_above p = p"
  by (subst wrap_above.simps) simp

lemma wrap_below_ge: "- pi \<le> wrap_below p"
  by (induction p rule: wrap_below.induct) (subst wrap_below.simps, simp)

lemma wrap_below_le: "p \<le> pi \<Longrightarrow> wrap_below p \<le> pi"
proof (induction p rule: wrap_below.induct)
  case (1 p)
  show ?case
  proof (cases "p < - pi")
    case True
    then have "p + 2 * pi \<le> pi" by simp
    with "1.IH" [OF True] True show ?thesis by (subst wrap_below.simps) simp
  next
    case False
    with "1.prems" show ?thesis by (subst wrap_below.simps) simp
  qed
qed

lemma wrap_below_id: "- pi \<le> p \<Longrightarrow> wrap_below p = p"
  by (subst wrap_below.simps) simp

lemma phase_wrap_range: "- pi \<le> phase_wrap p \<and> phase_wrap p \<le> pi"
  by (simp add: phase_wrap_def wrap_below_ge wrap_below_le wrap_above_le)

lemma phase_wrap_id: "- pi \<le> p \<Longrightarrow> p \<le> pi \<Longrightarrow> phase_wrap p = p"
  by (simp add: phase_wrap_def wrap_above_id wrap_below_id)

lemma phase_wrap_idem: "phase_wrap (phase_wrap p) = phase_wrap p"
  using phase_wrap_range [of p] by (simp add: phase_wrap_id)


lemma wrapped_phase_wrap: "wrapped (phase_wrap p)"
  by (simp add: wrapped_def phase_wrap_range)

lemma phi_calc_cell_write:
  "\<exists>p. phi_calc_cell g x y z ks c ph = ph(ckey g c := phase_wrap p)"
  by (cases c) (auto simp: phi_calc_cell_def ckey_def Let_def)

lemma phi_calc_manual_cell_write:
  "\<exists>p. phi_calc_manual_cell g lam at2 x y z c ph = ph(ckey g c := phase_wrap p)"
  by (cases c) (auto simp: phi_calc_manual_cell_def ckey_def Let_def)

lemma fold_wrapped_writes:
  assumes w: "\<And>c ph. \<exists>p. f c ph = ph(key c := phase_wrap p)"
  shows "(\<forall>n \<in> S. wrapped (ph n)) \<Longrightarrow> \<forall>n \<in> S \<union> key ` set cs. wrapped (fold f cs ph n)"
proof (induction cs arbitrary: S ph)
  case Nil
  then show ?case by simp
next
  case (Cons c cs)
  from w [of c ph] obtain p where p: "f c ph = ph(key c := phase_wrap p)" by blast
  from Cons.prems have "\<forall>n \<in> insert (key c) S. wrapped (f c ph n)"
    by (simp add: p wrapped_phase_wrap)
  from Cons.IH [OF this] show ?case by simp
qed

lemma phi_calc_wrapped:
  assumes "in_grid g (i, j, k)"
  shows "wrapped (phi_calc g x y z ks ph (pt g i j k))"
proof -
  have "\<forall>n \<in> {} \<union> ckey g ` set (cells g). wrapped (fold (phi_calc_cell g x y z ks) (cells g) ph n)"
    by (rule fold_wrapped_writes [OF phi_calc_cell_write]) simp
  moreover from assms have "pt g i j k \<in> ckey g ` set (cells g)"
    by (force simp: set_cells ckey_def)
  ultimately show ?thesis unfolding phi_calc_def by blast
qed

lemma phi_calc_manual_wrapped:
  assumes "in_grid g (i, j, k)"
  shows "wrapped (phi_calc_manual g lam at2 x y z ph (pt g i j k))"
proof -
  have "\<forall>n \<in> {} \<union> ckey g ` set (cells g).
          wrapped (fold (phi_calc_manual_cell g lam at2 x y z) (cells g) ph n)"
    by (rule fold_wrapped_writes [OF phi_calc_manual_cell_write]) simp
  moreover from assms have "pt g i j k \<in> ckey g ` set (cells g)"
    by (force simp: set_cells ckey_def)
  ultimately show ?thesis unfolding phi_calc_manual_def by blast
qed

lemma integrate_step_kept:
  assumes "integrate_step g hh B pa pb pc t (ph, ms) = Inr (ph1, ms1)"
    and "kept_or_wrapped ph0 ms0 ph ms"
  shows "kept_or_wrapped ph0 ms0 ph1 ms1"
  using assms
  by (auto simp: integrate_step_def Let_def kept_or_wrapped_def wrapped_phase_wrap
           split: if_splits)

lemma integrate_path_kept:
  "fold_err (integrate_step g hh B pa pb pc) ts acc = Inr acc1 \<Longrightarrow>
   kept_or_wrapped ph0 ms0 (fst acc) (snd acc) \<Longrightarrow> kept_or_wrapped ph0 ms0 (fst acc1) (snd acc1)"
proof (induction ts arbitrary: acc)
  case Nil
  then show ?case by simp
next
  case (Cons t ts)
  show ?case
  proof (cases "integrate_step g hh B pa pb pc t acc")
    case (Inl e)
    with Cons.prems(1) show ?thesis by simp
  next
    case (Inr acc2)
    then have "kept_or_wrapped ph0 ms0 (fst acc2) (snd acc2)"
      using integrate_step_kept [of g hh B pa pb pc t "fst acc" "snd acc" "fst acc2" "snd acc2" ph0 ms0]
        Cons.prems(2) by simp
    moreover from Inr Cons.prems(1) have "fold_err (integrate_step g hh B pa pb pc) ts acc2 = Inr acc1"
      by simp
    ultimately show ?thesis by (rule Cons.IH [rotated])
  qed
qed

lemma visit_cell_kept:
  assumes "visit_cell g hh ign B start tgt st = Some (Inr st1)"
    and "kept_or_wrapped ph0 ms0 (phi_arr st) (missed_arr st)"
  shows "kept_or_wrapped ph0 ms0 (phi_arr st1) (missed_arr st1)"
proof -
  obtain ie je ke where tgt: "tgt = (ie, je, ke)" by (cases tgt)
  show ?thesis
  proof (cases "missed_arr st (pt g ie je ke) = 1 \<and> ign (pt g ie je ke) = 0")
    case False
    with assms show ?thesis by (auto simp: visit_cell_def tgt Let_def)
  next
    case True
    with assms(1) obtain len pa pb pc ph ms where
      pf: "pathfind g ign B start tgt (bpi st) (bpj st) (bpk st) = Some (Inr (len, pa, pb, pc))"
      and fe: "fold_err (integrate_step g hh B pa pb pc) [1..len] (phi_arr st, missed_arr st)
                 = Inr (ph, ms)"
      and st1: "st1 = \<lparr>phi_arr = ph, missed_arr = ms, bpi = pa, bpj = pb, bpk = pc\<rparr>"
      by (auto simp: visit_cell_def tgt Let_def split: option.splits sum.splits prod.splits)
    from integrate_path_kept [OF fe] assms(2) show ?thesis by (simp add: st1)
  qed
qed

lemma fold_res_kept:
  "fold_res (visit_cell g hh ign B start) ts st = Some (Inr st1) \<Longrightarrow>
   kept_or_wrapped ph0 ms0 (phi_arr st) (missed_arr st) \<Longrightarrow>
   kept_or_wrapped ph0 ms0 (phi_arr st1) (missed_arr st1)"
proof (induction ts arbitrary: st)
  case Nil
  then show ?case by simp
next
  case (Cons t ts)
  from Cons.prems(1) obtain st2 where
    v: "visit_cell g hh ign B start t st = Some (Inr st2)"
    and f: "fold_res (visit_cell g hh ign B start) ts st2 = Some (Inr st1)"
    by (auto split: option.splits sum.splits)
  from visit_cell_kept [OF v Cons.prems(2)]
  have "kept_or_wrapped ph0 ms0 (phi_arr st2) (missed_arr st2)" .
  with Cons.IH [OF f] show ?case .
qed

lemma phi_calc_B_kept:
  assumes "phi_calc_B g hh B ig ig1 st = Some (Inr st1)"
  shows "kept_or_wrapped (phi_arr st) (missed_arr st) (phi_arr st1) (missed_arr st1)"
proof -
  obtain i0 j0 k0 where b: "base_cell g = (i0, j0, k0)" by (cases "base_cell g")
  define st0 where "st0 = st\<lparr>missed_arr := (missed_arr st)(pt g i0 j0 k0 := 0),
                              phi_arr := (phi_arr st)(pt g i0 j0 k0 := 0)\<rparr>"
  from assms obtain st2 where
    1: "fold_res (visit_cell g hh ig B (i0, j0, k0)) (corner_targets g) st0 = Some (Inr st2)"
    and 2: "fold_res (visit_cell g hh ig1 B (i0, j0, k0)) (cells g) st2 = Some (Inr st1)"
    by (auto simp: phi_calc_B_def b Let_def st0_def split: option.splits sum.splits)
  have "kept_or_wrapped (phi_arr st) (missed_arr st) (phi_arr st0) (missed_arr st0)"
    by (simp add: st0_def kept_or_wrapped_def wrapped_def)
  from fold_res_kept [OF 2 fold_res_kept [OF 1 this]] show ?thesis .
qed

lemma pathfind_grid2:
  "pathfind grid2 ignore_but3 bfield_x (1, 1, 1) (0, 1, 1) pa pb pc
     = Some (Inr (1, pa(0 := 1, 1 := 0), pb(0 := 1, 1 := 1), pc(0 := 1, 1 := 1)))"
  by (simp add: pathfind_def pathfind_init_def pathfind_loop.simps pathfind_cond_def
        path_bound_def buffer_length_def pathfind_step_def set_distance_def sign_def pt_def
        grid2_def in_range_def gsize_def ignore_but3_def pathfind_result_def Let_def)


lemma phase_wrap_minus_one: "phase_wrap (- 1) = - 1"
proof -
  have "(1::real) \<le> pi" using pi_ge_two by linarith
  then show ?thesis by (intro phase_wrap_id) simp_all
qed

lemma integrate_grid2:
  "integrate_step grid2 1 bfield_x (pa(0 := 1, 1 := 0)) (pb(0 := 1, 1 := 1))
       (pc(0 := 1, 1 := 1)) 1 (phi_five(7 := 0), all_set(7 := 0))
     = Inr (phi_five(7 := 0, 3 := - 1), all_set(7 := 0, 3 := 0))"
  by (simp add: integrate_step_def pt_def grid2_def in_range_def gsize_def bfield_x_def Let_def
        phase_wrap_minus_one)

lemma phi_calc_B_grid2:
  "phi_calc_B grid2 1 bfield_x ignore_but3 all_set phi_state0
     = Some (Inr \<lparr>phi_arr = phi_five(7 := 0, 3 := - 1), missed_arr = all_set(7 := 0, 3 := 0),
                  bpi = zero_buf(0 := 1, 1 := 0), bpj = zero_buf(0 := 1, 1 := 1),
                  bpk = zero_buf(0 := 1, 1 := 1)\<rparr>)"
  by (simp add: phi_calc_B_def base_cell_def corner_targets_def cells_def visit_cell_def
        pathfind_grid2 integrate_grid2 phi_state0_def
        grid2_def [THEN arg_cong, of Nx] grid2_def [THEN arg_cong, of Ny]
        grid2_def [THEN arg_cong, of Nz] pt_def ignore_but3_def all_set_def Let_def upto.simps)


text \<open>
  Claim C1, as the code has it. The wrapping step maps every phase into the closed
  interval \<open>[-\<pi>, \<pi>]\<close> and leaves a value of that interval as it is, so wrapping twice is
  wrapping once. \<open>phi_calc\<close> and \<open>phi_calc_manual\<close> store a value of that interval at every
  grid cell. After \<open>phi_calc_B\<close>, every entry of the phase array is either untouched, with
  its missed flag as it was, or a value of that interval.
\<close>

theorem phase_values_wrapped:
  "(- pi \<le> phase_wrap p \<and> phase_wrap p \<le> pi) \<and>
   phase_wrap (phase_wrap p) = phase_wrap p \<and>
   (in_grid g (i, j, k) \<longrightarrow> wrapped (phi_calc g x y z knotsurface ph (pt g i j k))) \<and>
   (in_grid g (i, j, k) \<longrightarrow> wrapped (phi_calc_manual g lam at2 x y z ph (pt g i j k))) \<and>
   (phi_calc_B g hh B ig ig1 st = Some (Inr st1) \<longrightarrow>
      kept_or_wrapped (phi_arr st) (missed_arr st) (phi_arr st1) (missed_arr st1))"
  using phase_wrap_range [of p] phase_wrap_idem [of p]
    phi_calc_wrapped [of g i j k x y z knotsurface ph]
    phi_calc_manual_wrapped [of g i j k lam at2 x y z ph]
    phi_calc_B_kept [of g hh B ig ig1 st st1]
  by blast

theorem phase_values_wrapped_witness:
  "in_grid grid2 (0, 1, 1) \<and>
   phi_calc_B grid2 1 bfield_x ignore_but3 all_set phi_state0
     = Some (Inr \<lparr>phi_arr = phi_five(7 := 0, 3 := - 1), missed_arr = all_set(7 := 0, 3 := 0),
                  bpi = zero_buf(0 := 1, 1 := 0), bpj = zero_buf(0 := 1, 1 := 1),
                  bpk = zero_buf(0 := 1, 1 := 1)\<rparr>) \<and>
   wrapped (phi_calc grid2 field_zero field_zero field_zero [tri_pi] phi_five (pt grid2 0 1 1)) \<and>
   wrapped (phi_calc_manual grid2 1 atan2_zero field_zero field_zero field_zero phi_five
              (pt grid2 0 1 1)) \<and>
   kept_or_wrapped phi_five all_set (phi_five(7 := 0, 3 := - 1)) (all_set(7 := 0, 3 := 0))"
proof -
  have c: "in_grid grid2 (0, 1, 1)" by (simp add: in_grid_def grid2_def)
  note r = phi_calc_B_grid2
  from phase_values_wrapped [of 0 grid2 0 1 1 field_zero field_zero field_zero "[tri_pi]" phi_five
      1 atan2_zero 1 bfield_x ignore_but3 all_set phi_state0
      "\<lparr>phi_arr = phi_five(7 := 0, 3 := - 1), missed_arr = all_set(7 := 0, 3 := 0),
         bpi = zero_buf(0 := 1, 1 := 0), bpj = zero_buf(0 := 1, 1 := 1),
         bpk = zero_buf(0 := 1, 1 := 1)\<rparr>"] c r
  show ?thesis by (simp add: phi_state0_def)
qed

text \<open>
  The claim as the specification states it excludes the value \<open>-\<pi>\<close>. One triangle of area
  \<open>2\<pi>\<close> one unit away from the only cell of a one-cell grid, with its normal pointing
  at the cell, gives the solid-angle sum \<open>-\<pi>\<close>; neither loop changes it and \<open>phi_calc\<close>
  stores it.
\<close>

theorem phase_open_interval_counterexample:
  "in_grid grid1 (0, 0, 0) \<and>
   phi_calc grid1 field_zero field_zero field_zero [tri_pi] field_zero (pt grid1 0 0 0) = - pi \<and>
   \<not> (- pi < phi_calc grid1 field_zero field_zero field_zero [tri_pi] field_zero (pt grid1 0 0 0))"
proof -
  have w: "phase_wrap (- pi) = - pi" by (rule phase_wrap_id) simp_all
  have "phi_calc grid1 field_zero field_zero field_zero [tri_pi] field_zero (pt grid1 0 0 0) = - pi"
    by (simp add: phi_calc_def cells_def grid1_def phi_calc_cell_def phi_calc_term_def tri_pi_def
          field_zero_def pt_def Let_def w)
  then show ?thesis by (simp add: in_grid_def grid1_def)
qed

section \<open>The path-finder\<close>

lemma search_go_mono:
  "fold_err (search_cand g ign B cur d) ps (mx, go, off, trk) = Inr (mx1, go1, off1, trk1) \<Longrightarrow>
   go1 = 0 \<Longrightarrow>
   go = 0 \<and> mx1 = mx \<and> off1 = off \<and> trk1 = trk \<and>
   list_all (\<lambda>p. case p of (ip, jp, kp) \<Rightarrow>
                stop_flag g ign trk (fst cur + ip, fst (snd cur) + jp, snd (snd cur) + kp) \<noteq> 0) ps"
proof (induction ps arbitrary: mx go off trk)
  case Nil
  then show ?case by simp
next
  case (Cons p ps)
  obtain ip jp kp where p: "p = (ip, jp, kp)" by (cases p)
  obtain ci cj ck where cur: "cur = (ci, cj, ck)" by (cases cur)
  from Cons.prems(1) obtain mx2 go2 off2 trk2 where
    st: "search_cand g ign B cur d p (mx, go, off, trk) = Inr (mx2, go2, off2, trk2)"
    and rest: "fold_err (search_cand g ign B cur d) ps (mx2, go2, off2, trk2)
                 = Inr (mx1, go1, off1, trk1)"
    by (auto split: sum.splits)
  from Cons.IH [OF rest Cons.prems(2)]
  have ih: "go2 = 0" "mx1 = mx2" "off1 = off2" "trk1 = trk2"
    "list_all (\<lambda>p. case p of (ip, jp, kp) \<Rightarrow>
          stop_flag g ign trk2 (fst cur + ip, fst (snd cur) + jp, snd (snd cur) + kp) \<noteq> 0) ps"
    by simp_all
  from st ih(1) have "stop_flag g ign trk (ci + ip, cj + jp, ck + kp) \<noteq> 0 \<and>
      mx2 = mx \<and> go = 0 \<and> off2 = off \<and> trk2 = trk"
    by (auto simp: search_cand_def p cur Let_def split: if_splits)
  with ih show ?case by (simp add: p cur)
qed

lemma search_all_blocked:
  "list_all (\<lambda>p. case p of (ip, jp, kp) \<Rightarrow>
                stop_flag g ign trk (fst cur + ip, fst (snd cur) + jp, snd (snd cur) + kp) \<noteq> 0) ps \<Longrightarrow>
   fold_err (search_cand g ign B cur d) ps (mx, go, off, trk) = Inr (mx, go, off, trk)"
proof (induction ps)
  case Nil
  then show ?case by simp
next
  case (Cons p ps)
  obtain ip jp kp where p: "p = (ip, jp, kp)" by (cases p)
  obtain ci cj ck where cur: "cur = (ci, cj, ck)" by (cases cur)
  from Cons.prems have b: "stop_flag g ign trk (ci + ip, cj + jp, ck + kp) \<noteq> 0"
    and r: "list_all (\<lambda>p. case p of (ip, jp, kp) \<Rightarrow>
                stop_flag g ign trk (fst cur + ip, fst (snd cur) + jp, snd (snd cur) + kp) \<noteq> 0) ps"
    by (simp_all add: p cur)
  from b have "search_cand g ign B cur d p (mx, go, off, trk) = Inr (mx, go, off, trk)"
    by (simp add: search_cand_def p cur Let_def)
  with Cons.IH [OF r] show ?case by simp
qed

lemma search_go_range:
  "fold_err (search_cand g ign B cur d) ps (mx, go, off, trk) = Inr (mx1, go1, off1, trk1) \<Longrightarrow>
   go = 0 \<or> go = 1 \<Longrightarrow> go1 = 0 \<or> go1 = 1"
proof (induction ps arbitrary: mx go off trk)
  case Nil
  then show ?case by simp
next
  case (Cons p ps)
  obtain ip jp kp where p: "p = (ip, jp, kp)" by (cases p)
  obtain ci cj ck where cur: "cur = (ci, cj, ck)" by (cases cur)
  from Cons.prems(1) obtain mx2 go2 off2 trk2 where
    st: "search_cand g ign B cur d p (mx, go, off, trk) = Inr (mx2, go2, off2, trk2)"
    and rest: "fold_err (search_cand g ign B cur d) ps (mx2, go2, off2, trk2)
                 = Inr (mx1, go1, off1, trk1)"
    by (auto split: sum.splits)
  from st Cons.prems(2) have "go2 = 0 \<or> go2 = 1"
    by (auto simp: search_cand_def p cur Let_def split: if_splits)
  from Cons.IH [OF rest this] show ?case .
qed

lemma pathfind_step_give_up:
  "pathfind_step g ign B tgt s = Inr (Give_up s1) \<longleftrightarrow>
   (tstep s = 0 \<and> no_candidate g ign s \<and> s1 = s)"
proof
  assume a: "pathfind_step g ign B tgt s = Inr (Give_up s1)"
  define ci where "ci = pi_arr s (tstep s)"
  define cj where "cj = pj_arr s (tstep s)"
  define ck where "ck = pk_arr s (tstep s)"
  define nu where "nu = pt g (ci + sign (di s)) (cj + sign (dj s)) (ck + sign (dk s))"
  from a have r: "in_range g nu" and bl: "ign nu + track s nu \<noteq> 0"
    by (auto simp: pathfind_step_def Let_def nu_def ci_def cj_def ck_def split: if_splits)
  with a obtain mx go off trk where
    f: "fold_err (search_cand g ign B (ci, cj, ck) (di s, dj s, dk s)) offsets27
          (Fin (- 10), 0, offs s, track s) = Inr (mx, go, off, trk)"
    and g0: "go \<noteq> 1" and t0: "tstep s = 0" and s1: "s1 = s\<lparr>track := trk, offs := off\<rparr>"
    by (auto simp: pathfind_step_def Let_def nu_def ci_def cj_def ck_def
             split: if_splits sum.splits prod.splits option.splits)
  from search_go_range [OF f] g0 have "go = 0" by simp
  from search_go_mono [OF f this]
  have u: "off = offs s" "trk = track s"
    and bl2: "list_all (\<lambda>p. case p of (ip, jp, kp) \<Rightarrow>
                stop_flag g ign (track s) (ci + ip, cj + jp, ck + kp) \<noteq> 0) offsets27"
    by simp_all
  from u s1 have "s1 = s" by simp
  moreover from r bl bl2 have "no_candidate g ign s"
    by (simp add: no_candidate_def pf_cell_def Let_def nu_def ci_def cj_def ck_def)
  ultimately show "tstep s = 0 \<and> no_candidate g ign s \<and> s1 = s" using t0 by simp
next
  assume "tstep s = 0 \<and> no_candidate g ign s \<and> s1 = s"
  then show "pathfind_step g ign B tgt s = Inr (Give_up s1)"
    by (auto simp: pathfind_step_def no_candidate_def pf_cell_def Let_def search_all_blocked)
qed


lemma pathfind_loop_rule:
  assumes run: "pathfind_loop g ign B tgt s = Some r" and inv: "I s"
    and step: "\<And>s s1. I s \<Longrightarrow> pathfind_cond g s \<Longrightarrow>
                 pathfind_step g ign B tgt s = Inr (Next s1) \<Longrightarrow> I s1"
  shows "case r of
           Inl e \<Rightarrow> True
         | Inr (Next s1) \<Rightarrow> I s1 \<and> \<not> pathfind_cond g s1
         | Inr (Give_up s1) \<Rightarrow> I s1 \<and> pathfind_cond g s1 \<and>
                                pathfind_step g ign B tgt s1 = Inr (Give_up s1)"
proof -
  let ?post = "\<lambda>r. case r of
           Inl e \<Rightarrow> True
         | Inr (Next s1) \<Rightarrow> I s1 \<and> \<not> pathfind_cond g s1
         | Inr (Give_up s1) \<Rightarrow> I s1 \<and> pathfind_cond g s1 \<and>
                                pathfind_step g ign B tgt s1 = Inr (Give_up s1)"
  let ?Q = "\<lambda>g' ign' B' tgt' s r.
              g' = g \<and> ign' = ign \<and> B' = B \<and> tgt' = tgt \<and> I s \<longrightarrow> ?post r"
  have "?Q g ign B tgt s r"
  proof (rule pathfind_loop.raw_induct [where P = ?Q, OF _ run])
    fix lp g' ign' B' tgt' s r
    assume IH: "\<And>g' ign' B' tgt' s r. lp g' ign' B' tgt' s = Some r \<Longrightarrow> ?Q g' ign' B' tgt' s r"
      and hyp': "(if pathfind_cond g' s
                  then case pathfind_step g' ign' B' tgt' s of
                         Inl e \<Rightarrow> Some (Inl e)
                       | Inr (Next s1) \<Rightarrow> lp g' ign' B' tgt' s1
                       | Inr (Give_up s1) \<Rightarrow> Some (Inr (Give_up s1))
                  else Some (Inr (Next s))) = Some r"
    show "?Q g' ign' B' tgt' s r"
    proof
      assume "g' = g \<and> ign' = ign \<and> B' = B \<and> tgt' = tgt \<and> I s"
      then have eq: "g' = g" "ign' = ign" "B' = B" "tgt' = tgt" and i: "I s"
        by simp_all
      note hyp = hyp' [unfolded eq]
      show "?post r"
      proof (cases "pathfind_cond g s")
        case False
        with hyp have "r = Inr (Next s)" by simp
        with i False show ?thesis by simp
      next
        case c: True
        show ?thesis
        proof (cases "pathfind_step g ign B tgt s")
          case (Inl e)
          with c hyp have "r = Inl e" by simp
          then show ?thesis by simp
        next
          case (Inr nx)
          show ?thesis
          proof (cases nx)
            case (Give_up s1)
            with Inr c hyp have "r = Inr (Give_up s1)" by simp
            moreover from Inr Give_up have "s1 = s"
              by (simp add: pathfind_step_give_up)
            ultimately show ?thesis using Inr Give_up c i by simp
          next
            case (Next s1)
            with Inr c hyp have l: "lp g ign B tgt s1 = Some r" by simp
            from Inr Next have "pathfind_step g ign B tgt s = Inr (Next s1)" by simp
            from step [OF i c this] have "I s1" .
            with IH [OF l] show ?thesis by simp
          qed
        qed
      qed
    qed
  qed
  with inv show ?thesis by simp
qed

lemma pf_inv_step:
  assumes "pf_inv start tgt s" and "pathfind_step g ign B tgt s = Inr (Next s1)"
  shows "pf_inv start tgt s1"
proof -
  obtain ie je ke where tgt: "tgt = (ie, je, ke)" by (cases tgt)
  from assms show ?thesis
    by (auto simp: pathfind_step_def pf_inv_def set_distance_def tgt Let_def
             split: if_splits sum.splits prod.splits option.splits)
qed

lemma pf_inv_init: "pf_inv start tgt (pathfind_init start tgt pa pb pc)"
  by (cases start; cases tgt) (simp add: pf_inv_def pathfind_init_def)

lemma pathfind_step_below:
  assumes "pathfind_step g ign B tgt s = Inr (Next s1)" and "tstep s < buffer_length g"
  shows "tstep s1 < buffer_length g"
proof -
  obtain ie je ke where tgt: "tgt = (ie, je, ke)" by (cases tgt)
  from assms show ?thesis
    by (auto simp: pathfind_step_def set_distance_def tgt Let_def
             split: if_splits sum.splits prod.splits option.splits)
qed

lemma pathfind_loop_exit:
  assumes l: "pathfind_loop g ign B tgt (pathfind_init start tgt pa pb pc) = Some (Inr ex)"
    and b: "0 < buffer_length g"
  shows "case ex of
           Next s \<Rightarrow> pf_inv start tgt s \<and> tstep s < buffer_length g \<and> \<not> pathfind_cond g s
         | Give_up s \<Rightarrow> pf_inv start tgt s \<and> tstep s = 0 \<and> no_candidate g ign s"
proof -
  let ?I = "\<lambda>s. pf_inv start tgt s \<and> tstep s < buffer_length g"
  have i0: "?I (pathfind_init start tgt pa pb pc)"
    using pf_inv_init [of start tgt pa pb pc] b
    by (cases start; cases tgt) (simp add: pathfind_init_def)
  have st: "\<And>s s1. ?I s \<Longrightarrow> pathfind_cond g s \<Longrightarrow>
              pathfind_step g ign B tgt s = Inr (Next s1) \<Longrightarrow> ?I s1"
    using pf_inv_step pathfind_step_below by blast
  from pathfind_loop_rule [where I = ?I, OF l i0 st]
  have "case ex of
           Next s \<Rightarrow> ?I s \<and> \<not> pathfind_cond g s
         | Give_up s \<Rightarrow> ?I s \<and> pathfind_cond g s \<and>
                                pathfind_step g ign B tgt s = Inr (Give_up s)"
    by simp
  then show ?thesis
    by (cases ex) (auto simp: pathfind_step_give_up)
qed

text \<open>
  A call of \<open>pathfind\<close> that returns a length, that is, one without undefined behaviour, has
  either arrived, and then the length is the number of steps, below \<open>Nx + Ny + Nz\<close>, with
  the start cell in entry \<open>0\<close> of the buffers and the target cell in the last entry; or it
  has left the loop by \<open>return 0\<close> at step 0 in the start cell, where the cell on the direct
  route and all 27 cells of the search, the start cell among them, are blocked. The reset
  \<open>if (t==Nx+Ny+Nz) t=0\<close> after the loop is never what makes the returned length \<open>0\<close>.
\<close>

lemma pathfind_defined_runs:
  assumes r: "pathfind g ign B start tgt pa pb pc = Some (Inr (len, qa, qb, qc))"
  shows "(\<exists>s. pathfind_loop g ign B tgt (pathfind_init start tgt pa pb pc) = Some (Inr (Next s)) \<and>
              len = tstep s \<and> 0 \<le> len \<and> len < buffer_length g \<and>
              (qa 0, qb 0, qc 0) = start \<and> (qa len, qb len, qc len) = tgt) \<or>
         (\<exists>s. pathfind_loop g ign B tgt (pathfind_init start tgt pa pb pc) = Some (Inr (Give_up s)) \<and>
              len = 0 \<and> tstep s = 0 \<and> pf_cell s = start \<and> no_candidate g ign s)"
proof -
  let ?s0 = "pathfind_init start tgt pa pb pc"
  from r have b: "0 < buffer_length g"
    by (auto simp: pathfind_def split: if_splits)
  with r obtain ex where l: "pathfind_loop g ign B tgt ?s0 = Some (Inr ex)"
    and res: "pathfind_result g ex = (len, qa, qb, qc)"
    by (auto simp: pathfind_def split: option.splits sum.splits)
  note e = pathfind_loop_exit [OF l b]
  have pb: "path_bound g = buffer_length g" by (simp add: path_bound_def buffer_length_def)
  obtain ie je ke where tgt: "tgt = (ie, je, ke)" by (cases tgt)
  show ?thesis
  proof (cases ex)
    case (Give_up s)
    with e have "tstep s = 0" "no_candidate g ign s" "pf_inv start tgt s" by simp_all
    moreover from this have "pf_cell s = start" by (auto simp: pf_inv_def pf_cell_def)
    moreover from res Give_up have "len = 0" by (simp add: pathfind_result_def)
    ultimately show ?thesis using l Give_up by auto
  next
    case (Next s)
    with e have inv: "pf_inv start tgt s" and lt: "tstep s < buffer_length g"
      and nc: "\<not> pathfind_cond g s" by simp_all
    from res Next lt pb have len: "len = tstep s" and q: "qa = pi_arr s" "qb = pj_arr s" "qc = pk_arr s"
      by (simp_all add: pathfind_result_def)
    from nc lt pb have "di s = 0 \<and> dj s = 0 \<and> dk s = 0"
      by (auto simp: pathfind_cond_def)
    with inv have "(pi_arr s (tstep s), pj_arr s (tstep s), pk_arr s (tstep s)) = tgt"
      "(pi_arr s 0, pj_arr s 0, pk_arr s 0) = start" "0 \<le> tstep s"
      by (auto simp: pf_inv_def tgt)
    with len q lt l Next show ?thesis by auto
  qed
qed

text \<open>
  When the start cell itself is blocked as well, the first pass does return \<open>0\<close>; and a
  returned \<open>0\<close> leaves the arrays \<open>phi\<close> and \<open>missed\<close> of \<open>phi_calc_B\<close> as they were.
\<close>

lemma pathfind_gives_up:
  assumes b: "0 < buffer_length g" and ne: "start \<noteq> tgt"
    and nc: "no_candidate g ign (pathfind_init start tgt pa pb pc)"
  shows "pathfind g ign B start tgt pa pb pc
     = Some (Inr (0, pa(0 := fst start), pb(0 := fst (snd start)), pc(0 := snd (snd start))))"
proof -
  obtain i0 j0 k0 where s: "start = (i0, j0, k0)" by (cases start)
  obtain ie je ke where t: "tgt = (ie, je, ke)" by (cases tgt)
  let ?s0 = "pathfind_init start tgt pa pb pc"
  have t0: "tstep ?s0 = 0" by (simp add: pathfind_init_def s t)
  from b ne have c: "pathfind_cond g ?s0"
    by (auto simp: pathfind_cond_def pathfind_init_def path_bound_def buffer_length_def s t)
  from t0 nc have "pathfind_step g ign B tgt ?s0 = Inr (Give_up ?s0)"
    by (simp add: pathfind_step_give_up)
  with c have "pathfind_loop g ign B tgt ?s0 = Some (Inr (Give_up ?s0))"
    by (subst pathfind_loop.simps) simp
  with b show ?thesis
    by (simp add: pathfind_def pathfind_result_def) (simp add: pathfind_init_def s t)
qed

lemma visit_cell_zero:
  assumes "pathfind g ign B start tgt (bpi st) (bpj st) (bpk st) = Some (Inr (0, qa, qb, qc))"
  shows "\<exists>st1. visit_cell g hh ign B start tgt st = Some (Inr st1) \<and>
               phi_arr st1 = phi_arr st \<and> missed_arr st1 = missed_arr st"
  using assms by (cases tgt) (simp add: visit_cell_def Let_def)

lemma offsets27_list:
  "offsets27 =
     [(-1,-1,-1), (-1,-1,0), (-1,-1,1), (-1,0,-1), (-1,0,0), (-1,0,1), (-1,1,-1), (-1,1,0), (-1,1,1),
      (0,-1,-1), (0,-1,0), (0,-1,1), (0,0,-1), (0,0,0), (0,0,1), (0,1,-1), (0,1,0), (0,1,1),
      (1,-1,-1), (1,-1,0), (1,-1,1), (1,0,-1), (1,0,0), (1,0,1), (1,1,-1), (1,1,0), (1,1,1)]"
  by (simp add: offsets27_def upto.simps)

lemmas pathfind_eval =
  pathfind_def pathfind_init_def pathfind_loop.simps pathfind_cond_def
  path_bound_def buffer_length_def pathfind_step_def set_distance_def sign_def pt_def grid442_def
  in_range_def gsize_def pathfind_result_def Let_def
  offsets27_list search_cand_def stop_flag_def in_box_def weight1_def weight2_def
  fdiv_def bfield_x_def

lemma pathfind_detour:
  "pathfind grid442 ignore_c9 bfield_x (2, 2, 1) (0, 2, 0) pa pb pc
     = Some (Inr (4, pa(0 := 2, 1 := 2, 2 := 2, 3 := 1, 4 := 0),
                     pb(0 := 2, 1 := 1, 2 := 0, 3 := 1, 4 := 2),
                     pc(0 := 1, 1 := 1, 2 := 1, 3 := 0, 4 := 0)))"
  by (simp add: pathfind_eval ignore_c9_def)

lemma pathfind_unset_offsets:
  "pathfind grid442 ignore_ends bfield_x (2, 2, 1) (0, 2, 0) pa pb pc = Some (Inl Uninitialised_offset)"
  by (simp add: pathfind_eval ignore_ends_def)

lemma pathfind_past_buffers:
  "pathfind grid442 ignore_three bfield_x (2, 2, 1) (0, 2, 0) pa pb pc = Some (Inl Buffer_overflow)"
  by (simp add: pathfind_eval ignore_three_def)


text \<open>
  Claim C3 does not hold of the code: in both failure cases of the claim the call has
  undefined behaviour instead of a clean \<open>return 0\<close>. On the \<open>4 \<times> 4 \<times> 2\<close> grid, from the
  base cell \<open>(2, 2, 1)\<close> to the target \<open>(0, 2, 0)\<close>:

  \<^item> with every cell but these two excluded, the cell \<open>(1, 2, 0)\<close> on the direct route
    (and its neighbours \<open>(1, 1, 0)\<close> and \<open>(1, 3, 0)\<close>, so the value of \<open>sign(0)\<close> does not
    matter) and all 26 neighbours of the start are blocked at step 0. The search also looks at the
    start cell itself, which is free, and sets \<open>go = 1\<close>; the weights of that cell are
    \<open>0/0\<close>, so no offset is stored, and the move reads \<open>io\<close>, \<open>jo\<close>, \<open>ko\<close>, which were
    never assigned;
  \<^item> with the cell \<open>(2, 1, 1)\<close> free as well, the walk goes to and fro between
    \<open>(2, 2, 1)\<close>, \<open>(2, 1, 1)\<close> and \<open>(2, 0, 1)\<close> and never arrives. Its tenth step, the one
    that brings \<open>t\<close> to the bound \<open>Nx + Ny + Nz = 10\<close>, writes entry \<open>10\<close> of the
    buffers, which have the entries \<open>0, \<dots>, 9\<close>.
\<close>

theorem pathfind_failure_undefined:
  "base_cell grid442 = (2, 2, 1) \<and>
   list_all (\<lambda>j. ignore_ends (pt grid442 1 j 0) = 1 \<and> ignore_three (pt grid442 1 j 0) = 1)
     [1, 2, 3] \<and>
   list_all (\<lambda>p. case p of (ip, jp, kp) \<Rightarrow>
               stop_flag grid442 ignore_ends (\<lambda>n. 0) (2 + ip, 2 + jp, 1 + kp) \<noteq> 0)
     (remove1 (0, 0, 0) offsets27) \<and>
   pathfind grid442 ignore_ends bfield_x (2, 2, 1) (0, 2, 0) zero_buf zero_buf zero_buf
     = Some (Inl Uninitialised_offset) \<and>
   buffer_length grid442 = 10 \<and>
   pathfind grid442 ignore_three bfield_x (2, 2, 1) (0, 2, 0) zero_buf zero_buf zero_buf
     = Some (Inl Buffer_overflow)"
proof -
  have "base_cell grid442 = (2, 2, 1)" by (simp add: base_cell_def grid442_def)
  moreover have "list_all (\<lambda>j. ignore_ends (pt grid442 1 j 0) = 1 \<and>
                   ignore_three (pt grid442 1 j 0) = 1) [1, 2, 3]"
    by (simp add: pt_def grid442_def ignore_ends_def ignore_three_def)
  moreover have "list_all (\<lambda>p. case p of (ip, jp, kp) \<Rightarrow>
               stop_flag grid442 ignore_ends (\<lambda>n. 0) (2 + ip, 2 + jp, 1 + kp) \<noteq> 0)
     (remove1 (0, 0, 0) offsets27)"
    by (simp add: offsets27_list stop_flag_def in_box_def pt_def grid442_def ignore_ends_def)
  moreover have "buffer_length grid442 = 10" by (simp add: buffer_length_def grid442_def)
  ultimately show ?thesis
    by (simp only: pathfind_unset_offsets pathfind_past_buffers simp_thms)
qed

text \<open>
  Claim C9 does not hold of the code. The search also looks at the current cell, offset
  \<open>(0, 0, 0)\<close>: when that cell is free it sets \<open>go = 1\<close>, its weights are \<open>0/0\<close>, so it is
  never the favoured one, and when no other cell is free the move uses the offsets
  \<open>(io, jo, ko)\<close> left by an earlier search. On the \<open>4 \<times> 4 \<times> 2\<close> grid, from the base cell
  \<open>(2, 2, 1)\<close> to the target \<open>(0, 2, 0)\<close>, with the cells \<open>(2, 2, 1)\<close>, \<open>(2, 1, 1)\<close>, \<open>(1, 1, 0)\<close>
  and \<open>(0, 2, 0)\<close> as the only ones not excluded, \<open>pathfind\<close> returns the length \<open>4\<close> and the
  path \<open>(2, 2, 1)\<close>, \<open>(2, 1, 1)\<close>, \<open>(2, 0, 1)\<close>, \<open>(1, 1, 0)\<close>, \<open>(0, 2, 0)\<close>, whose third cell
  \<open>(2, 0, 1)\<close> is excluded.
\<close>

theorem pathfind_enters_ignored_cell:
  "base_cell grid442 = (2, 2, 1) \<and>
   pathfind grid442 ignore_c9 bfield_x (2, 2, 1) (0, 2, 0) zero_buf zero_buf zero_buf
     = Some (Inr (4, zero_buf(0 := 2, 1 := 2, 2 := 2, 3 := 1, 4 := 0),
                     zero_buf(0 := 2, 1 := 1, 2 := 0, 3 := 1, 4 := 2),
                     zero_buf(0 := 1, 1 := 1, 2 := 1, 3 := 0, 4 := 0))) \<and>
   ignore_c9 (pt grid442 2 0 1) = 1"
proof -
  have "base_cell grid442 = (2, 2, 1)" by (simp add: base_cell_def grid442_def)
  moreover have "ignore_c9 (pt grid442 2 0 1) = 1" by (simp add: pt_def grid442_def ignore_c9_def)
  ultimately show ?thesis by (simp only: pathfind_detour simp_thms)
qed

end
